theory Spec2Isabelle
  imports Main "HOL-Library.Word" "HOL-Library.Log_Nat"
begin

section \<open>Memory, errors and the decoder object\<close>

text \<open>
  The model follows \<^verbatim>\<open>src/audio_decoder.cpp\<close> of EasyRPG Player: the shared code of
  the audio decoders (\<^verbatim>\<open>Decode\<close>, \<^verbatim>\<open>DecodeAll\<close>, volume and fades, the width of
  the sample formats) and the factory \<^verbatim>\<open>Create\<close>, which chooses a decoder for a
  stream.

  A destination buffer is a pointer into memory, and \<^verbatim>\<open>Decode\<close> does pointer
  arithmetic on it (\<^verbatim>\<open>&buffer[res]\<close>), so memory is an explicit store: a map from
  addresses to bytes. A cell that holds \<open>None\<close> is indeterminate (never written).

  The C++ type \<^verbatim>\<open>int\<close> is modelled by \<open>int\<close>: the values are meant within the
  32-bit range, and signed overflow (undefined behaviour in C++) is outside the model.
\<close>

type_synonym uint8 = "8 word"

type_synonym memory = "int \<Rightarrow> uint8 option"

datatype error =
    AssertionFailed string
  | UndefinedBehaviour string
  | LengthError

text \<open>
  \<^verbatim>\<open>memset(p, c, n)\<close>. Its size parameter is a \<^verbatim>\<open>size_t\<close>: a negative \<^verbatim>\<open>int\<close>
  converts to a size beyond every object, which is undefined behaviour.
\<close>

definition memset :: "memory \<Rightarrow> int \<Rightarrow> uint8 \<Rightarrow> int \<Rightarrow> error + memory" where
  "memset m p c n =
     (if n < 0 then Inl (UndefinedBehaviour ''memset: negative size'')
      else Inr (\<lambda>i. if p \<le> i \<and> i < p + n then Some c else m i))"

datatype seekdir = Beg | Cur | End

text \<open>
  The pure virtual member functions of \<^verbatim>\<open>AudioDecoder\<close> that the shared code calls,
  over the state \<open>'b\<close> of the concrete decoder class. \<^verbatim>\<open>FillBuffer(buffer, length)\<close>
  returns its result and the bytes it stored, as a partial map from addresses (a C++
  function can store bytes, it cannot make a cell indeterminate again); the memory
  after the call is the memory before it overwritten by these stores.
\<close>

record 'b decoder_vtable =
  FillBuffer :: "'b \<Rightarrow> memory \<Rightarrow> int \<Rightarrow> int \<Rightarrow> int \<times> memory \<times> 'b"
  IsFinished :: "'b \<Rightarrow> bool"
  Seek :: "'b \<Rightarrow> int \<Rightarrow> seekdir \<Rightarrow> bool \<times> 'b"

text \<open>
  The data members of \<^verbatim>\<open>AudioDecoder\<close>. A \<^verbatim>\<open>double\<close> is a rational number (see
  the section on binary64 arithmetic below). \<open>derived\<close> is the state of the concrete
  decoder; \<open>debug_output\<close> is not a member: it collects the messages passed to
  \<^verbatim>\<open>Output::Debug\<close>, so that the effect is visible.
\<close>

type_synonym double = rat

record 'b AudioDecoder =
  paused :: bool
  volume :: double
  fade_end :: double
  fade_time :: double
  delta_step :: double
  looping :: bool
  loop_count :: int
  error_message :: string
  music_type :: string
  derived :: 'b
  debug_output :: "string list"

definition Pause :: "'b AudioDecoder \<Rightarrow> 'b AudioDecoder" where
  "Pause this = this\<lparr>paused := True\<rparr>"

definition Resume :: "'b AudioDecoder \<Rightarrow> 'b AudioDecoder" where
  "Resume this = this\<lparr>paused := False\<rparr>"

text \<open>
  \<^verbatim>\<open>assert(false && "...")\<close> ends the program, unless the preprocessor symbol
  \<^verbatim>\<open>NDEBUG\<close> is defined: then the assertion is compiled out and the code goes on.
  The functions that assert take \<open>NDEBUG\<close> as their first parameter.

  \<^verbatim>\<open>Rewind\<close>: \<^verbatim>\<open>if (!Seek(0, std::ios_base::beg)) assert(false && "Rewind")\<close>.
\<close>

definition Rewind ::
  "bool \<Rightarrow> 'b decoder_vtable \<Rightarrow> 'b AudioDecoder \<Rightarrow> error + 'b AudioDecoder" where
  "Rewind NDEBUG vt this =
     (case Seek vt (derived this) 0 Beg of
        (ok, b) \<Rightarrow>
          if \<not> ok \<and> \<not> NDEBUG then Inl (AssertionFailed ''Rewind'')
          else Inr (this\<lparr>derived := b\<rparr>))"

section \<open>Decode\<close>

text \<open>Lines 73 to 76: the diagnostic at recursion depth 10, while \<open>loop_count < 50\<close>.\<close>

definition depth_message :: string where
  "depth_message = ''Audio Decoder: Recursion depth exceeded. Probably stream error.''"

definition report_depth :: "'b AudioDecoder \<Rightarrow> int \<Rightarrow> 'b AudioDecoder" where
  "report_depth this recursion_depth =
     (if recursion_depth = 10 \<and> loop_count this < 50
      then this\<lparr>debug_output := debug_output this @ [depth_message]\<rparr>
      else this)"

text \<open>Lines 55 to 59: the zero fill after \<^verbatim>\<open>FillBuffer\<close> returned \<open>res\<close>.\<close>

definition zero_fill :: "memory \<Rightarrow> int \<Rightarrow> int \<Rightarrow> int \<Rightarrow> error + memory" where
  "zero_fill m buffer len res =
     (if res < 0 then memset m buffer 0 len
      else if res < len then memset m (buffer + res) 0 (len - res)
      else Inr m)"

text \<open>
  \<^verbatim>\<open>int AudioDecoder::Decode(uint8_t* buffer, int length, int recursion_depth)\<close>.
  The result is the returned \<^verbatim>\<open>int\<close>, the memory and the object after the call.
\<close>

function Decode_rec ::
  "bool \<Rightarrow> 'b decoder_vtable \<Rightarrow> 'b AudioDecoder \<Rightarrow> memory \<Rightarrow> int \<Rightarrow> int \<Rightarrow> int \<Rightarrow>
     error + (int \<times> memory \<times> 'b AudioDecoder)" where
  "Decode_rec NDEBUG vt this m buffer len recursion_depth =
     (if paused this then
        (case memset m buffer 0 len of
           Inl e \<Rightarrow> Inl e
         | Inr m' \<Rightarrow> Inr (len, m', this))
      else
        (case FillBuffer vt (derived this) m buffer len of
           (res, stores, b1) \<Rightarrow>
             (case zero_fill (m ++ stores) buffer len res of
                Inl e \<Rightarrow> Inl e
              | Inr m2 \<Rightarrow>
                  (let this1 = this\<lparr>derived := b1\<rparr> in
                   if IsFinished vt b1 \<and> looping this1 \<and> recursion_depth < 10 then
                     (case Rewind NDEBUG vt (this1\<lparr>loop_count := loop_count this1 + 1\<rparr>) of
                        Inl e \<Rightarrow> Inl e
                      | Inr this3 \<Rightarrow>
                          if len - res > 0 then
                            (case Decode_rec NDEBUG vt this3 m2 (buffer + res) (len - res)
                                    (recursion_depth + 1) of
                               Inl e \<Rightarrow> Inl e
                             | Inr (res2, m3, this4) \<Rightarrow>
                                 if res2 \<le> 0 then Inr (res, m3, this4)
                                 else Inr (res + res2, m3, this4))
                          else Inr (res, m2, report_depth this3 recursion_depth))
                   else Inr (res, m2, report_depth this1 recursion_depth)))))"
  by pat_completeness auto
termination
  by (relation "measure (\<lambda>(NDEBUG, vt, this, m, buffer, len, recursion_depth).
        nat (10 - recursion_depth))")
    auto

declare Decode_rec.simps [simp del]

text \<open>\<^verbatim>\<open>int AudioDecoder::Decode(uint8_t* buffer, int length)\<close>.\<close>

definition Decode ::
  "bool \<Rightarrow> 'b decoder_vtable \<Rightarrow> 'b AudioDecoder \<Rightarrow> memory \<Rightarrow> int \<Rightarrow> int \<Rightarrow>
     error + (int \<times> memory \<times> 'b AudioDecoder)" where
  "Decode NDEBUG vt this m buffer len = Decode_rec NDEBUG vt this m buffer len 0"

section \<open>DecodeAll\<close>

text \<open>
  A \<^verbatim>\<open>std::vector<uint8_t>\<close> is the list of its elements. \<^verbatim>\<open>resize(n)\<close> keeps the
  first \<open>n\<close> elements and appends value-initialised (zero) elements up to size \<open>n\<close>.
\<close>

definition resize :: "uint8 list \<Rightarrow> nat \<Rightarrow> uint8 list" where
  "resize v n = take n v @ replicate (n - length v) 0"

text \<open>
  For the call of \<^verbatim>\<open>Decode\<close> the storage of the vector lies in memory, with
  \<^verbatim>\<open>buffer.data()\<close> at address 0; every element of a vector is initialised.
  After the call the elements are read back; reading an indeterminate byte would be
  undefined behaviour.
\<close>

definition store_vector :: "uint8 list \<Rightarrow> memory" where
  "store_vector v = (\<lambda>i. if 0 \<le> i \<and> i < int (length v) then Some (v ! nat i) else None)"

fun load_vector :: "memory \<Rightarrow> int \<Rightarrow> nat \<Rightarrow> error + uint8 list" where
  "load_vector m p 0 = Inr []"
| "load_vector m p (Suc n) =
     (case m p of
        None \<Rightarrow> Inl (UndefinedBehaviour ''read of an indeterminate byte'')
      | Some b \<Rightarrow>
          (case load_vector m (p + 1) n of
             Inl e \<Rightarrow> Inl e
           | Inr bs \<Rightarrow> Inr (b # bs)))"

definition buffer_size :: int where
  "buffer_size = 8192"

text \<open>
  The loop of \<^verbatim>\<open>DecodeAll\<close>. It need not terminate (a looping decoder never finishes):
  not returning is the value \<open>None\<close>. \<^verbatim>\<open>buffer.size() - (buffer_size - read)\<close> is
  computed in \<^verbatim>\<open>size_t\<close>; below zero it wraps around to a size that \<^verbatim>\<open>resize\<close>
  refuses with \<^verbatim>\<open>std::length_error\<close>.
\<close>

partial_function (option) DecodeAll_loop ::
  "bool \<Rightarrow> 'b decoder_vtable \<Rightarrow> 'b AudioDecoder \<Rightarrow> uint8 list \<Rightarrow>
     (error + (uint8 list \<times> 'b AudioDecoder)) option" where
  "DecodeAll_loop NDEBUG vt this buffer =
     (if \<not> IsFinished vt (derived this) then
        (case Decode NDEBUG vt this (store_vector buffer)
                (0 + int (length buffer) - buffer_size) buffer_size of
           Inl e \<Rightarrow> Some (Inl e)
         | Inr (read, m, this') \<Rightarrow>
             (case load_vector m 0 (length buffer) of
                Inl e \<Rightarrow> Some (Inl e)
              | Inr buffer' \<Rightarrow>
                  if read < buffer_size then
                    (if int (length buffer') - (buffer_size - read) < 0 then Some (Inl LengthError)
                     else Some (Inr (resize buffer'
                            (nat (int (length buffer') - (buffer_size - read))), this')))
                  else DecodeAll_loop NDEBUG vt this'
                         (resize buffer' (nat (int (length buffer') + buffer_size)))))
      else Some (Inr (buffer, this)))"

definition DecodeAll ::
  "bool \<Rightarrow> 'b decoder_vtable \<Rightarrow> 'b AudioDecoder \<Rightarrow> (error + (uint8 list \<times> 'b AudioDecoder)) option" where
  "DecodeAll NDEBUG vt this = DecodeAll_loop NDEBUG vt this (resize [] (nat buffer_size))"

section \<open>The sentinel decoder for WMA files\<close>

text \<open>
  \<^verbatim>\<open>class WMAUnsupportedFormatDecoder\<close>: its member functions, and its constructor,
  which runs on the object as the constructor of the base class left it. The class has
  no data member of its own.
\<close>

definition WMAUnsupportedFormatDecoder_vtable :: "unit decoder_vtable" where
  "WMAUnsupportedFormatDecoder_vtable =
     \<lparr>FillBuffer = (\<lambda>b m buffer len. (- 1, Map.empty, b)),
      IsFinished = (\<lambda>b. True),
      Seek = (\<lambda>b offset origin. (False, b))\<rparr>"

definition WMAUnsupportedFormatDecoder_ctor :: "unit AudioDecoder \<Rightarrow> unit AudioDecoder" where
  "WMAUnsupportedFormatDecoder_ctor base =
     base\<lparr>error_message :=
       ''WMA audio files are not supported. Reinstall the'' @ [CHR 0x0A] @
       ''game and don'' @ [CHR 0x27] @ ''t convert them when asked by Windows!'' @ [CHR 0x0A]\<rparr>"

definition wma_magic :: string where
  "wma_magic = [CHR 0x30, CHR 0x26, CHR 0xB2, CHR 0x75]"

definition GetError :: "'b AudioDecoder \<Rightarrow> string" where
  "GetError this = error_message this"

definition GetType :: "'b AudioDecoder \<Rightarrow> string" where
  "GetType this = music_type this"

definition GetLooping :: "'b AudioDecoder \<Rightarrow> bool" where
  "GetLooping this = looping this"

definition SetLooping :: "bool \<Rightarrow> 'b AudioDecoder \<Rightarrow> 'b AudioDecoder" where
  "SetLooping enable this = this\<lparr>looping := enable\<rparr>"

definition GetLoopCount :: "'b AudioDecoder \<Rightarrow> int" where
  "GetLoopCount this = loop_count this"

section \<open>Binary64 arithmetic\<close>

text \<open>
  A finite \<^verbatim>\<open>double\<close> is a rational number, and an arithmetic operation on doubles is
  the exact operation followed by IEEE 754 rounding to the nearest binary64 number,
  ties to even: 53 significant bits, the exponent of the last place not below
  \<open>- 1074\<close>. Infinities and NaN are not represented; the fade code cannot reach them
  from \<^verbatim>\<open>int\<close> arguments (it never divides by zero, and no value leaves the range of
  the finite doubles). The conversion of an \<^verbatim>\<open>int\<close> to \<^verbatim>\<open>double\<close> is exact, since
  every 32-bit integer is a binary64 number.
\<close>

definition ilog2 :: "rat \<Rightarrow> int" where
  "ilog2 x =
     (case quotient_of x of
        (p, q) \<Rightarrow> (let e = bitlen p - bitlen q in if (2::rat) powi e \<le> x then e else e - 1))"

definition round_half_even :: "rat \<Rightarrow> int" where
  "round_half_even q =
     (let f = \<lfloor>q\<rfloor>; r = q - of_int f
      in if r < 1 / 2 then f else if 1 / 2 < r then f + 1 else if even f then f else f + 1)"

definition binary64 :: "rat \<Rightarrow> double" where
  "binary64 x =
     (if x = 0 then 0
      else (let e = max (ilog2 \<bar>x\<bar>) (- 1022); u = (2::rat) powi (e - 52)
            in of_int (round_half_even (x / u)) * u))"

definition fadd :: "double \<Rightarrow> double \<Rightarrow> double" where
  "fadd x y = binary64 (x + y)"

definition fsub :: "double \<Rightarrow> double \<Rightarrow> double" where
  "fsub x y = binary64 (x - y)"

definition fmul :: "double \<Rightarrow> double \<Rightarrow> double" where
  "fmul x y = binary64 (x * y)"

definition fdiv :: "double \<Rightarrow> double \<Rightarrow> double" where
  "fdiv x y = binary64 (x / y)"

definition double_of_int :: "int \<Rightarrow> double" where
  "double_of_int n = of_int n"

section \<open>Volume and fades\<close>

text \<open>\<^verbatim>\<open>void AudioDecoder::SetFade(int begin, int end, int duration)\<close>.\<close>

definition SetFade :: "int \<Rightarrow> int \<Rightarrow> int \<Rightarrow> 'b AudioDecoder \<Rightarrow> 'b AudioDecoder" where
  "SetFade begin end duration this =
     (let this0 = this\<lparr>fade_time := 0\<rparr> in
      if double_of_int duration \<le> 0 then this0\<lparr>volume := double_of_int end\<rparr>
      else if begin = end then this0\<lparr>volume := double_of_int end\<rparr>
      else
        (let this1 = this0\<lparr>volume := double_of_int begin\<rparr>;
             this2 = this1\<lparr>fade_end := double_of_int end\<rparr>;
             this3 = this2\<lparr>fade_time := double_of_int duration\<rparr>
         in this3\<lparr>delta_step := fdiv (fsub (fade_end this3) (volume this3)) (fade_time this3)\<rparr>))"

text \<open>\<^verbatim>\<open>void AudioDecoder::Update(int delta)\<close>.\<close>

definition Update :: "int \<Rightarrow> 'b AudioDecoder \<Rightarrow> 'b AudioDecoder" where
  "Update delta this =
     (if fade_time this \<le> 0 then this
      else
        (let this1 = this\<lparr>fade_time := fsub (fade_time this) (double_of_int delta)\<rparr>;
             this2 = this1\<lparr>volume :=
                       fadd (volume this1) (fmul (double_of_int delta) (delta_step this1))\<rparr>
         in this2\<lparr>volume :=
              (if volume this2 > 100 then 100
               else if volume this2 < 0 then 0
               else volume this2)\<rparr>))"

definition SetVolume :: "int \<Rightarrow> 'b AudioDecoder \<Rightarrow> 'b AudioDecoder" where
  "SetVolume v this = this\<lparr>volume := double_of_int v\<rparr>"

text \<open>\<^verbatim>\<open>GetVolume\<close>: the conversion \<^verbatim>\<open>(int)volume\<close> truncates towards zero.\<close>

definition GetVolume :: "'b AudioDecoder \<Rightarrow> int" where
  "GetVolume this = (if 0 \<le> volume this then \<lfloor>volume this\<rfloor> else \<lceil>volume this\<rceil>)"

section \<open>Sample formats\<close>

text \<open>
  \<^verbatim>\<open>enum class Format\<close> is declared in \<^verbatim>\<open>audio_decoder.h\<close>; its enumerators are the
  seven that the \<^verbatim>\<open>switch\<close> of \<^verbatim>\<open>GetSamplesizeForFormat\<close> names. \<open>Unenumerated\<close>
  stands for a value of the enumeration type that equals none of them (C++ allows such
  values through a cast); for such a value the code runs into
  \<^verbatim>\<open>assert(false && "Bad format"); return -1;\<close>.
\<close>

datatype Format = S8 | U8 | S16 | U16 | S32 | U32 | F32 | Unenumerated int

fun GetSamplesizeForFormat :: "bool \<Rightarrow> Format \<Rightarrow> error + int" where
  "GetSamplesizeForFormat NDEBUG S8 = Inr 1"
| "GetSamplesizeForFormat NDEBUG U8 = Inr 1"
| "GetSamplesizeForFormat NDEBUG S16 = Inr 2"
| "GetSamplesizeForFormat NDEBUG U16 = Inr 2"
| "GetSamplesizeForFormat NDEBUG S32 = Inr 4"
| "GetSamplesizeForFormat NDEBUG U32 = Inr 4"
| "GetSamplesizeForFormat NDEBUG F32 = Inr 4"
| "GetSamplesizeForFormat NDEBUG (Unenumerated v) =
     (if NDEBUG then Inr (- 1) else Inl (AssertionFailed ''Bad format''))"

section \<open>The input stream\<close>

text \<open>
  \<^verbatim>\<open>Filesystem_Stream::InputStream\<close> is a \<^verbatim>\<open>std::istream\<close>: the bytes of the stream,
  the read position, the three state flags and the count of the last unformatted read.
  \<^verbatim>\<open>read\<close> and \<^verbatim>\<open>seekg\<close> do nothing but set \<^verbatim>\<open>failbit\<close> on a stream that is not
  good; \<^verbatim>\<open>read\<close> sets \<^verbatim>\<open>eofbit\<close> and \<^verbatim>\<open>failbit\<close> when the stream ends before
  \<open>n\<close> characters; \<^verbatim>\<open>seekg\<close> clears \<^verbatim>\<open>eofbit\<close> first. A position past the last byte
  is accepted, as for a file.
\<close>

record InputStream =
  bytes :: string
  gpos :: nat
  eofbit :: bool
  failbit :: bool
  badbit :: bool
  gcount :: nat
  stream_name :: string

definition good :: "InputStream \<Rightarrow> bool" where
  "good s = (\<not> eofbit s \<and> \<not> failbit s \<and> \<not> badbit s)"

definition fail :: "InputStream \<Rightarrow> bool" where
  "fail s = (failbit s \<or> badbit s)"

definition read :: "InputStream \<Rightarrow> nat \<Rightarrow> string \<times> InputStream" where
  "read s n =
     (if \<not> good s then ([], s\<lparr>failbit := True, gcount := 0\<rparr>)
      else
        (let got = take n (drop (gpos s) (bytes s))
         in (got, s\<lparr>gpos := gpos s + length got,
                    eofbit := length got < n,
                    failbit := length got < n,
                    gcount := length got\<rparr>)))"

definition seekg :: "InputStream \<Rightarrow> int \<Rightarrow> InputStream" where
  "seekg s off =
     (let s1 = s\<lparr>eofbit := False\<rparr>
      in if fail s1 \<or> off < 0 then s1\<lparr>failbit := True\<rparr> else s1\<lparr>gpos := nat off\<rparr>)"

definition clear :: "InputStream \<Rightarrow> InputStream" where
  "clear s = s\<lparr>eofbit := False, failbit := False, badbit := False\<rparr>"

text \<open>
  A read into an array stores the characters it got at the start of the array and
  leaves the rest of the array as it was.
\<close>

definition overwrite :: "string \<Rightarrow> string \<Rightarrow> string" where
  "overwrite obj got = got @ drop (length got) obj"

text \<open>
  Modelled from the spec: \<^verbatim>\<open>InputStream::ReadIntoObj\<close> is defined in
  \<^verbatim>\<open>filesystem_stream.h\<close>, which is not among the sources. The spec: read the 4
  leading bytes; if the stream cannot supply 4 bytes, fail. It is a \<^verbatim>\<open>read\<close> of the
  size of the object, and succeeds when the stream has not failed.
\<close>

definition ReadIntoObj :: "InputStream \<Rightarrow> string \<Rightarrow> bool \<times> string \<times> InputStream" where
  "ReadIntoObj s obj =
     (case read s (length obj) of (got, s') \<Rightarrow> (\<not> fail s', overwrite obj got, s'))"

text \<open>
  \<^verbatim>\<open>strncmp(a, b, n) == 0\<close> and \<^verbatim>\<open>memcmp(a, b, n) == 0\<close>. The end of a list is
  the terminating NUL of a string literal.
\<close>

fun strncmp_eq :: "string \<Rightarrow> string \<Rightarrow> nat \<Rightarrow> bool" where
  "strncmp_eq a b 0 = True"
| "strncmp_eq a b (Suc n) =
     (let x = (case a of [] \<Rightarrow> CHR 0x00 | c # _ \<Rightarrow> c);
          y = (case b of [] \<Rightarrow> CHR 0x00 | c # _ \<Rightarrow> c)
      in x = y \<and> (x = CHR 0x00 \<or> strncmp_eq (tl a) (tl b) n))"

definition memcmp_eq :: "string \<Rightarrow> string \<Rightarrow> nat \<Rightarrow> bool" where
  "memcmp_eq a b n = (take n a = take n b)"

section \<open>Create\<close>

text \<open>
  The preprocessor symbols that select the code of \<^verbatim>\<open>Create\<close>, the decoder classes it
  can return, and the functions it calls that are defined in other files, taken as
  parameters: \<^verbatim>\<open>MidiDecoder::Create\<close>, \<^verbatim>\<open>XMPDecoder::IsModule\<close>,
  \<^verbatim>\<open>Mpg123Decoder::IsMp3\<close>, and what \<^verbatim>\<open>WasInited\<close> answers for a new
  \<^verbatim>\<open>Mpg123Decoder\<close>. \<open>raw_enc_indeterminate\<close> is the content (two bytes) of the local
  variable \<^verbatim>\<open>raw_enc\<close> before the read; the code does not initialise it.
\<close>

record build_config =
  HAVE_OPUS :: bool
  HAVE_TREMOR :: bool
  HAVE_OGGVORBIS :: bool
  WANT_FASTWAV :: bool
  HAVE_LIBSNDFILE :: bool
  HAVE_XMP :: bool
  HAVE_MPG123 :: bool
  USE_AUDIO_RESAMPLER :: bool

datatype Decoder =
    MidiDecoder
  | OpusDecoder
  | OggVorbisDecoder
  | WavDecoder
  | LibsndfileDecoder
  | WMAUnsupportedFormatDecoder
  | XMPDecoder
  | Mpg123Decoder
  | AudioResampler Decoder

record externals =
  MidiDecoder_Create :: "InputStream \<Rightarrow> bool \<Rightarrow> Decoder option \<times> InputStream"
  XMPDecoder_IsModule :: "string \<Rightarrow> bool"
  Mpg123Decoder_IsMp3 :: "InputStream \<Rightarrow> bool \<times> InputStream"
  Mpg123Decoder_WasInited :: bool
  raw_enc_indeterminate :: "char \<times> char"

definition add_resampler :: "build_config \<Rightarrow> bool \<Rightarrow> Decoder \<Rightarrow> Decoder" where
  "add_resampler cfg resample dec =
     (if USE_AUDIO_RESAMPLER cfg \<and> resample then AudioResampler dec else dec)"

text \<open>
  Each part of \<^verbatim>\<open>Create\<close> either returns (\<open>Inl\<close>: the decoder or \<^verbatim>\<open>nullptr\<close>, and
  the stream) or falls through to the next part (\<open>Inr\<close>).

  Lines 130 to 136, the MIDI decoder.
\<close>

definition Create_midi ::
  "externals \<Rightarrow> bool \<Rightarrow> string \<Rightarrow> InputStream \<Rightarrow>
     (Decoder option \<times> InputStream) + InputStream" where
  "Create_midi ext resample magic s =
     (if strncmp_eq magic ''MThd'' 4 then
        (case MidiDecoder_Create ext s resample of
           (midi, s') \<Rightarrow> if midi \<noteq> None then Inl (midi, s') else Inr s')
      else Inr s)"

text \<open>
  Lines 138 to 163, the Ogg container. A probe reads into \<^verbatim>\<open>magic\<close>, so the parts
  that follow compare the bytes of the last probe.
\<close>

definition probe ::
  "nat \<Rightarrow> string \<Rightarrow> InputStream \<Rightarrow> (Decoder option \<times> InputStream) + (string \<times> InputStream)" where
  "probe offset magic s =
     (case read (seekg s (int offset)) 4 of
        (got, s') \<Rightarrow>
          if gcount s' = 0 then Inl (None, s') else Inr (overwrite magic got, seekg s' 0))"

definition Create_ogg ::
  "build_config \<Rightarrow> bool \<Rightarrow> string \<Rightarrow> InputStream \<Rightarrow>
     (Decoder option \<times> InputStream) + (string \<times> InputStream)" where
  "Create_ogg cfg resample magic s =
     (if strncmp_eq magic ''OggS'' 4 then
        (case (if HAVE_OPUS cfg then
                 (case probe 28 magic s of
                    Inl r \<Rightarrow> Inl r
                  | Inr (magic', s') \<Rightarrow>
                      if strncmp_eq magic' ''Opus'' 4
                      then Inl (Some (add_resampler cfg resample OpusDecoder), s')
                      else Inr (magic', s'))
               else Inr (magic, s)) of
           Inl r \<Rightarrow> Inl r
         | Inr (magic1, s1) \<Rightarrow>
             if HAVE_TREMOR cfg \<or> HAVE_OGGVORBIS cfg then
               (case probe 29 magic1 s1 of
                  Inl r \<Rightarrow> Inl r
                | Inr (magic', s') \<Rightarrow>
                    if strncmp_eq magic' ''vorb'' 4
                    then Inl (Some (add_resampler cfg resample OggVorbisDecoder), s')
                    else Inr (magic', s'))
             else Inr (magic1, s1))
      else Inr (magic, s))"

text \<open>
  Lines 165 to 179, the fast WAV decoder. \<^verbatim>\<open>Utils::SwapByteOrder\<close> makes \<^verbatim>\<open>raw_enc\<close>
  the little-endian value of the two bytes read.
\<close>

definition le16 :: "string \<Rightarrow> nat" where
  "le16 cs = of_char (cs ! 0) + 256 * of_char (cs ! 1)"

definition Create_fastwav ::
  "build_config \<Rightarrow> externals \<Rightarrow> bool \<Rightarrow> string \<Rightarrow> InputStream \<Rightarrow>
     (Decoder option \<times> InputStream) + InputStream" where
  "Create_fastwav cfg ext resample magic s =
     (if WANT_FASTWAV cfg \<and> strncmp_eq magic ''RIFF'' 4 then
        (case read (seekg s 20) 2 of
           (got, s') \<Rightarrow>
             (let raw_enc = le16 (overwrite [fst (raw_enc_indeterminate ext),
                                               snd (raw_enc_indeterminate ext)] got);
                  s'' = seekg s' 0
              in if raw_enc = 0x01
                 then Inl (Some (add_resampler cfg resample WavDecoder), s'')
                 else Inr s''))
      else Inr s)"

text \<open>
  Lines 204 to 228, the MP3 decoder and the final \<^verbatim>\<open>return nullptr\<close>. The static
  variable \<^verbatim>\<open>mpg123_works\<close> is passed in and returned.
\<close>

definition Create_mpg123 ::
  "build_config \<Rightarrow> externals \<Rightarrow> bool \<Rightarrow> bool \<Rightarrow> string \<Rightarrow> InputStream \<Rightarrow>
     Decoder option \<times> InputStream \<times> bool" where
  "Create_mpg123 cfg ext mpg123_works resample magic s =
     (if HAVE_MPG123 cfg \<and> mpg123_works then
        (let mp3dec = add_resampler cfg resample Mpg123Decoder in
         if Mpg123Decoder_WasInited ext then
           (if strncmp_eq magic ''ID3'' 3 then (Some mp3dec, s, mpg123_works)
            else
              (case Mpg123Decoder_IsMp3 ext s of
                 (is_mp3, s') \<Rightarrow>
                   if is_mp3 then (Some mp3dec, seekg (clear s') 0, mpg123_works)
                   else (None, seekg (clear s') 0, mpg123_works)))
         else (None, seekg (clear s) 0, False))
      else (None, seekg (clear s) 0, mpg123_works))"

text \<open>
  \<^verbatim>\<open>AudioDecoder::Create(stream, resample)\<close>: the decoder or \<^verbatim>\<open>nullptr\<close> (\<open>None\<close>),
  the stream after the call, and \<^verbatim>\<open>mpg123_works\<close> after the call.
\<close>

definition Create ::
  "build_config \<Rightarrow> externals \<Rightarrow> bool \<Rightarrow> InputStream \<Rightarrow> bool \<Rightarrow>
     Decoder option \<times> InputStream \<times> bool" where
  "Create cfg ext mpg123_works stream resample =
     (case ReadIntoObj stream [CHR 0x00, CHR 0x00, CHR 0x00, CHR 0x00] of
        (ok, magic, s1) \<Rightarrow>
          if \<not> ok then (None, s1, mpg123_works)
          else
            (case Create_midi ext resample magic (seekg s1 0) of
               Inl (dec, s) \<Rightarrow> (dec, s, mpg123_works)
             | Inr s2 \<Rightarrow>
                 (case Create_ogg cfg resample magic s2 of
                    Inl (dec, s) \<Rightarrow> (dec, s, mpg123_works)
                  | Inr (magic3, s3) \<Rightarrow>
                      (case Create_fastwav cfg ext resample magic3 s3 of
                         Inl (dec, s) \<Rightarrow> (dec, s, mpg123_works)
                       | Inr s4 \<Rightarrow>
                           if strncmp_eq magic3 ''RIFF'' 4 \<or> strncmp_eq magic3 ''FORM'' 4 \<or>
                              strncmp_eq magic3 ''OggS'' 4 \<or> strncmp_eq magic3 ''fLaC'' 4
                           then
                             (if HAVE_LIBSNDFILE cfg
                              then (Some (add_resampler cfg resample LibsndfileDecoder), s4,
                                    mpg123_works)
                              else (None, s4, mpg123_works))
                           else if memcmp_eq magic3 wma_magic 4
                           then (Some WMAUnsupportedFormatDecoder, s4, mpg123_works)
                           else if HAVE_XMP cfg \<and> XMPDecoder_IsModule ext (stream_name s4)
                           then (Some (add_resampler cfg resample XMPDecoder), s4, mpg123_works)
                           else Create_mpg123 cfg ext mpg123_works resample magic3 s4))))"

section \<open>Predicates and concrete inputs of the properties\<close>

text \<open>
  What \<^verbatim>\<open>Decode\<close> expects of \<^verbatim>\<open>FillBuffer(buffer, length)\<close>: the result is at most
  \<open>length\<close>, the bytes it reports as produced have been stored, and it stores nothing
  outside \<open>buffer[0..length)\<close>.
\<close>

definition fill_contract :: "'b decoder_vtable \<Rightarrow> bool" where
  "fill_contract vt =
     (\<forall>b m p n. 0 \<le> n \<longrightarrow>
        (case FillBuffer vt b m p n of
           (res, stores, b') \<Rightarrow>
             res \<le> n \<and>
             (\<forall>i. p \<le> i \<and> i < p + res \<longrightarrow> stores i \<noteq> None) \<and>
             (\<forall>i. stores i \<noteq> None \<longrightarrow> p \<le> i \<and> i < p + n)))"

text \<open>Every byte that \<^verbatim>\<open>FillBuffer\<close> stores has the property \<open>P\<close>.\<close>

definition stores_only :: "(uint8 \<Rightarrow> bool) \<Rightarrow> 'b decoder_vtable \<Rightarrow> bool" where
  "stores_only P vt =
     (\<forall>b m p n i v. fst (snd (FillBuffer vt b m p n)) i = Some v \<longrightarrow> P v)"

text \<open>
  A negative result of \<^verbatim>\<open>FillBuffer\<close> is not followed by a loop re-entry: looping is
  off, or the backend is not finished after a call that returned a negative result.
\<close>

definition no_negative_reentry :: "'b decoder_vtable \<Rightarrow> 'b AudioDecoder \<Rightarrow> bool" where
  "no_negative_reentry vt this =
     (looping this \<longrightarrow>
        (\<forall>b m p n. case FillBuffer vt b m p n of
           (res, stores, b') \<Rightarrow> res < 0 \<longrightarrow> \<not> IsFinished vt b'))"

text \<open>\<^verbatim>\<open>Seek(0, std::ios_base::beg)\<close> succeeds in every state (``the libs guarantee that Rewind works'').\<close>

definition rewind_works :: "'b decoder_vtable \<Rightarrow> bool" where
  "rewind_works vt = (\<forall>b. fst (Seek vt b 0 Beg))"

text \<open>A backend that is finished after every call, and one that never fills a request.\<close>

definition always_finished :: "'b decoder_vtable \<Rightarrow> bool" where
  "always_finished vt = (\<forall>b. IsFinished vt b)"

definition always_short :: "'b decoder_vtable \<Rightarrow> bool" where
  "always_short vt = (\<forall>b m p n. 0 < n \<longrightarrow> fst (FillBuffer vt b m p n) < n)"

definition defined_on :: "memory \<Rightarrow> int \<Rightarrow> int \<Rightarrow> bool" where
  "defined_on m p n = (\<forall>i. p \<le> i \<and> i < p + n \<longrightarrow> m i \<noteq> None)"

definition zero_on :: "memory \<Rightarrow> int \<Rightarrow> int \<Rightarrow> bool" where
  "zero_on m p n = (\<forall>i. p \<le> i \<and> i < p + n \<longrightarrow> m i = Some 0)"

text \<open>Sequences of the three operations on the volume.\<close>

datatype volume_op = OpSetVolume int | OpSetFade int int int | OpUpdate int

fun apply_op :: "volume_op \<Rightarrow> 'b AudioDecoder \<Rightarrow> 'b AudioDecoder" where
  "apply_op (OpSetVolume v) this = SetVolume v this"
| "apply_op (OpSetFade b e d) this = SetFade b e d this"
| "apply_op (OpUpdate delta) this = Update delta this"

fun run_ops :: "volume_op list \<Rightarrow> 'b AudioDecoder \<Rightarrow> 'b AudioDecoder" where
  "run_ops [] this = this"
| "run_ops (x # xs) this = run_ops xs (apply_op x this)"

definition volume_ok :: "'b AudioDecoder \<Rightarrow> bool" where
  "volume_ok this = (0 \<le> volume this \<and> volume this \<le> 100)"

fun op_in_range :: "volume_op \<Rightarrow> bool" where
  "op_in_range (OpSetVolume v) = (0 \<le> v \<and> v \<le> 100)"
| "op_in_range (OpSetFade b e d) = (0 \<le> b \<and> b \<le> 100 \<and> 0 \<le> e \<and> e \<le> 100)"
| "op_in_range (OpUpdate delta) = True"

text \<open>The formats that \<^verbatim>\<open>GetSamplesizeForFormat\<close> gives a width.\<close>

definition enumerated_formats :: "Format list" where
  "enumerated_formats = [S8, U8, S16, U16, S32, U32, F32]"

text \<open>
  Concrete inputs. \<open>example_decoder\<close> is an object that plays (not paused, not looping,
  no fade); \<open>sentinel\<close> is the WMA sentinel built on it. \<open>tone_vtable\<close> is a decoder of
  a stream of three bytes \<open>0x2A\<close>: its state is the number of bytes left, and a seek
  rewinds it. \<open>silent_vtable\<close> is a decoder of a stream of no bytes.
\<close>

definition example_decoder :: "unit AudioDecoder" where
  "example_decoder =
     \<lparr>paused = False, volume = 0, fade_end = 0, fade_time = 0, delta_step = 0,
      looping = False, loop_count = 0, error_message = [], music_type = [],
      derived = (), debug_output = []\<rparr>"

definition sentinel :: "unit AudioDecoder" where
  "sentinel = WMAUnsupportedFormatDecoder_ctor example_decoder"

definition tone_vtable :: "nat decoder_vtable" where
  "tone_vtable =
     \<lparr>FillBuffer = (\<lambda>b m p n.
        (min (int b) (max 0 n),
         (\<lambda>i. if p \<le> i \<and> i < p + min (int b) (max 0 n) then Some 0x2A else None),
         b - nat (min (int b) (max 0 n)))),
      IsFinished = (\<lambda>b. b = 0),
      Seek = (\<lambda>b offset origin. (True, 3))\<rparr>"

definition tone_decoder :: "nat AudioDecoder" where
  "tone_decoder =
     \<lparr>paused = False, volume = 100, fade_end = 0, fade_time = 0, delta_step = 0,
      looping = False, loop_count = 0, error_message = [], music_type = [],
      derived = 3, debug_output = []\<rparr>"

definition silent_vtable :: "unit decoder_vtable" where
  "silent_vtable =
     \<lparr>FillBuffer = (\<lambda>b m p n. (0, Map.empty, b)),
      IsFinished = (\<lambda>b. True),
      Seek = (\<lambda>b offset origin. (True, b))\<rparr>"

definition empty_stream :: InputStream where
  "empty_stream =
     \<lparr>bytes = [], gpos = 0, eofbit = False, failbit = False, badbit = False, gcount = 0,
      stream_name = ''empty''\<rparr>"

definition ogg_stub_stream :: InputStream where
  "ogg_stub_stream =
     \<lparr>bytes = ''OggS'', gpos = 0, eofbit = False, failbit = False, badbit = False, gcount = 0,
      stream_name = ''stub.ogg''\<rparr>"

definition wma_stream :: InputStream where
  "wma_stream =
     \<lparr>bytes = wma_magic @ [CHR 0x8E, CHR 0x66, CHR 0xCF, CHR 0x11], gpos = 0, eofbit = False,
      failbit = False, badbit = False, gcount = 0, stream_name = ''music.wma''\<rparr>"

section \<open>Lemmas about Decode\<close>

lemma zero_fill_ok: "0 \<le> len \<or> 0 \<le> res \<Longrightarrow> \<exists>m2. zero_fill m buf len res = Inr m2"
  by (auto simp: zero_fill_def memset_def)

lemma zero_fill_Inr:
  "zero_fill m buf len res = Inr m2 \<Longrightarrow>
   m2 = (\<lambda>i. if (res < 0 \<and> buf \<le> i \<and> i < buf + len) \<or> (0 \<le> res \<and> buf + res \<le> i \<and> i < buf + len)
              then Some 0 else m i)"
  by (auto simp: zero_fill_def memset_def split: if_splits intro!: ext)

lemma zero_fill_at:
  "zero_fill m buf len res = Inr m2 \<Longrightarrow>
   m2 i = (if (res < 0 \<and> buf \<le> i \<and> i < buf + len) \<or> (0 \<le> res \<and> buf + res \<le> i \<and> i < buf + len)
           then Some 0 else m i)"
  by (drule zero_fill_Inr) simp

lemma zero_fill_keeps: "zero_fill m buf len res = Inr m2 \<Longrightarrow> m i \<noteq> None \<Longrightarrow> m2 i \<noteq> None"
  by (simp add: zero_fill_at)

lemma Rewind_ok:
  "fst (Seek vt (derived this) 0 Beg) \<Longrightarrow>
   Rewind NDEBUG vt this = Inr (this\<lparr>derived := snd (Seek vt (derived this) 0 Beg)\<rparr>)"
  by (cases "Seek vt (derived this) 0 Beg") (simp add: Rewind_def)

lemma Rewind_Inr: "Rewind NDEBUG vt this = Inr this3 \<Longrightarrow> \<exists>b. this3 = this\<lparr>derived := b\<rparr>"
  by (cases "Seek vt (derived this) 0 Beg") (auto simp: Rewind_def split: if_splits)

lemma report_depth_fields [simp]:
  "loop_count (report_depth this d) = loop_count this"
  "paused (report_depth this d) = paused this"
  "looping (report_depth this d) = looping this"
  "derived (report_depth this d) = derived this"
  by (simp_all add: report_depth_def)

text \<open>The four ways through \<^verbatim>\<open>Decode\<close>, each as an equation.\<close>

lemma Decode_rec_paused:
  "paused this \<Longrightarrow> Decode_rec NDEBUG vt this m buf len d =
     (case memset m buf 0 len of Inl e \<Rightarrow> Inl e | Inr m' \<Rightarrow> Inr (len, m', this))"
  by (subst Decode_rec.simps) simp

lemma Decode_rec_fill_error:
  "\<not> paused this \<Longrightarrow> FillBuffer vt (derived this) m buf len = (res, stores, b1) \<Longrightarrow>
   zero_fill (m ++ stores) buf len res = Inl e \<Longrightarrow> Decode_rec NDEBUG vt this m buf len d = Inl e"
  by (subst Decode_rec.simps) simp

lemma Decode_rec_no_loop:
  "\<not> paused this \<Longrightarrow> FillBuffer vt (derived this) m buf len = (res, stores, b1) \<Longrightarrow>
   zero_fill (m ++ stores) buf len res = Inr m2 \<Longrightarrow>
   \<not> (IsFinished vt b1 \<and> looping this \<and> d < 10) \<Longrightarrow>
   Decode_rec NDEBUG vt this m buf len d = Inr (res, m2, report_depth (this\<lparr>derived := b1\<rparr>) d)"
  by (subst Decode_rec.simps) auto

lemma Decode_rec_loop:
  "\<not> paused this \<Longrightarrow> FillBuffer vt (derived this) m buf len = (res, stores, b1) \<Longrightarrow>
   zero_fill (m ++ stores) buf len res = Inr m2 \<Longrightarrow>
   IsFinished vt b1 \<Longrightarrow> looping this \<Longrightarrow> d < 10 \<Longrightarrow>
   Decode_rec NDEBUG vt this m buf len d =
     (case Rewind NDEBUG vt (this\<lparr>derived := b1, loop_count := loop_count this + 1\<rparr>) of
        Inl e \<Rightarrow> Inl e
      | Inr this3 \<Rightarrow>
          if len - res > 0 then
            (case Decode_rec NDEBUG vt this3 m2 (buf + res) (len - res) (d + 1) of
               Inl e \<Rightarrow> Inl e
             | Inr (res2, m3, this4) \<Rightarrow>
                 if res2 \<le> 0 then Inr (res, m3, this4) else Inr (res + res2, m3, this4))
          else Inr (res, m2, report_depth this3 d))"
  by (subst Decode_rec.simps) simp

text \<open>
  A backend that is always finished and never fills a request: from depth \<open>d\<close> the
  recursion goes down to depth 10, and each of the \<open>10 - d\<close> re-entries adds one to
  \<open>loop_count\<close>. The induction is on the distance to depth 10.
\<close>

lemma Decode_rec_loops:
  assumes fin: "always_finished vt" and short: "always_short vt" and seek: "rewind_works vt"
  shows "\<not> paused this \<Longrightarrow> looping this \<Longrightarrow> 0 < len \<Longrightarrow> d \<le> 10 \<Longrightarrow> k = nat (10 - d) \<Longrightarrow>
    \<exists>r m' this'. Decode_rec NDEBUG vt this m buf len d = Inr (r, m', this') \<and>
       loop_count this' = loop_count this + (10 - d) \<and>
       debug_output this' =
         debug_output this @ (if loop_count this + (10 - d) < 50 then [depth_message] else [])"
proof (induction k arbitrary: this m buf len d)
  case 0
  then have d: "d = 10" by simp
  obtain res stores b1 where f: "FillBuffer vt (derived this) m buf len = (res, stores, b1)"
    by (cases "FillBuffer vt (derived this) m buf len") auto
  obtain m2 where z: "zero_fill (m ++ stores) buf len res = Inr m2"
    using zero_fill_ok[of len res] 0(3) by force
  show ?case
    using Decode_rec_no_loop[OF 0(1) f z, of d] by (simp add: d report_depth_def)
next
  case (Suc k)
  then have d: "d < 10" by simp
  obtain res stores b1 where f: "FillBuffer vt (derived this) m buf len = (res, stores, b1)"
    by (cases "FillBuffer vt (derived this) m buf len") auto
  have res: "res < len"
    using short Suc.prems(3) f unfolding always_short_def by (metis fst_conv)
  obtain m2 where z: "zero_fill (m ++ stores) buf len res = Inr m2"
    using zero_fill_ok[of len res] Suc.prems(3) by force
  define this3 where
    "this3 = this\<lparr>derived := snd (Seek vt b1 0 Beg), loop_count := loop_count this + 1\<rparr>"
  have rw: "Rewind NDEBUG vt (this\<lparr>derived := b1, loop_count := loop_count this + 1\<rparr>) = Inr this3"
    using seek by (simp add: Rewind_ok this3_def rewind_works_def)
  have "\<exists>r m' this'. Decode_rec NDEBUG vt this3 m2 (buf + res) (len - res) (d + 1) = Inr (r, m', this') \<and>
       loop_count this' = loop_count this3 + (10 - (d + 1)) \<and>
       debug_output this' =
         debug_output this3 @ (if loop_count this3 + (10 - (d + 1)) < 50 then [depth_message] else [])"
    using Suc.prems res d by (intro Suc.IH) (simp_all add: this3_def)
  then obtain r m' this' where
    rec: "Decode_rec NDEBUG vt this3 m2 (buf + res) (len - res) (d + 1) = Inr (r, m', this')"
    and lc: "loop_count this' = loop_count this3 + (10 - (d + 1))"
    and dbg: "debug_output this' =
         debug_output this3 @ (if loop_count this3 + (10 - (d + 1)) < 50 then [depth_message] else [])"
    by blast
  have l3: "loop_count this3 = loop_count this + 1" "debug_output this3 = debug_output this"
    by (simp_all add: this3_def)
  have fb: "IsFinished vt b1" using fin by (simp add: always_finished_def)
  show ?case
    using Decode_rec_loop[OF Suc.prems(1) f z fb Suc.prems(2) d] res lc dbg l3
    by (simp add: rw rec)
qed

text \<open>For every backend: one call adds at most \<open>10 - d\<close> to \<open>loop_count\<close>.\<close>

lemma Decode_rec_loop_count_bound:
  "Decode_rec NDEBUG vt this m buf len d = Inr (r, m', this') \<Longrightarrow> d \<le> 10 \<Longrightarrow> k = nat (10 - d) \<Longrightarrow>
    loop_count this \<le> loop_count this' \<and> loop_count this' \<le> loop_count this + (10 - d)"
proof (induction k arbitrary: this m buf len d r m' this')
  case (0 this m buf len d r m' this')
  note dec = 0(1)
  from 0 have d: "\<not> d < 10" by simp
  show ?case
  proof (cases "paused this")
    case True
    then show ?thesis using dec 0(2) by (auto simp: Decode_rec_paused split: sum.splits)
  next
    case False
    obtain res stores b1 where f: "FillBuffer vt (derived this) m buf len = (res, stores, b1)"
      by (cases "FillBuffer vt (derived this) m buf len") auto
    show ?thesis
    proof (cases "zero_fill (m ++ stores) buf len res")
      case (Inl e)
      then show ?thesis using dec Decode_rec_fill_error[OF False f Inl] by simp
    next
      case (Inr m2)
      then show ?thesis using dec Decode_rec_no_loop[OF False f Inr, of d] d 0(2) by auto
    qed
  qed
next
  case (Suc k this m buf len d r m' this')
  note dec = Suc.prems(1)
  from Suc.prems have d: "d < 10" by simp
  show ?case
  proof (cases "paused this")
    case True
    then show ?thesis using dec d by (auto simp: Decode_rec_paused split: sum.splits)
  next
    case False
    obtain res stores b1 where f: "FillBuffer vt (derived this) m buf len = (res, stores, b1)"
      by (cases "FillBuffer vt (derived this) m buf len") auto
    show ?thesis
    proof (cases "zero_fill (m ++ stores) buf len res")
      case (Inl e)
      then show ?thesis using dec Decode_rec_fill_error[OF False f Inl] by simp
    next
      case (Inr m2)
      show ?thesis
      proof (cases "IsFinished vt b1 \<and> looping this")
        case nl: False
        then show ?thesis using dec Decode_rec_no_loop[OF False f Inr, of d] d by auto
      next
        case True
        note eq = Decode_rec_loop[OF False f Inr _ _ d]
        show ?thesis
        proof (cases "Rewind NDEBUG vt (this\<lparr>derived := b1, loop_count := loop_count this + 1\<rparr>)")
          case (Inl e)
          then show ?thesis using dec eq True by simp
        next
          case rw: (Inr this3)
          have l3: "loop_count this3 = loop_count this + 1"
            using Rewind_Inr[OF rw] by auto
          show ?thesis
          proof (cases "len - res > 0")
            case nrec: False
            then show ?thesis using dec eq True rw l3 d by auto
          next
            case rec: True
            from dec eq True rw rec obtain r2 where
              r2: "Decode_rec NDEBUG vt this3 m2 (buf + res) (len - res) (d + 1) = Inr (r2, m', this')"
              by (auto split: sum.splits if_splits)
            have "loop_count this3 \<le> loop_count this' \<and>
                  loop_count this' \<le> loop_count this3 + (10 - (d + 1))"
              using Suc.prems d by (intro Suc.IH[OF r2]) simp_all
            then show ?thesis using l3 by simp
          qed
        qed
      qed
    qed
  qed
qed

lemma Decode_loop_count_at_most_10:
  "Decode NDEBUG vt this m buf len = Inr (r, m', this') \<Longrightarrow>
   loop_count this \<le> loop_count this' \<and> loop_count this' \<le> loop_count this + 10"
  using Decode_rec_loop_count_bound[of NDEBUG vt this m buf len 0 r m' this' "nat 10"]
  by (simp add: Decode_def)

text \<open>\<^verbatim>\<open>Decode\<close> only stores bytes: a cell that was defined stays defined.\<close>

lemma Decode_rec_keeps_defined:
  "Decode_rec NDEBUG vt this m buf len d = Inr (r, m', this') \<Longrightarrow> k = nat (10 - d) \<Longrightarrow>
   m i \<noteq> None \<Longrightarrow> m' i \<noteq> None"
proof (induction k arbitrary: this m buf len d r m' this')
  case (0 this m buf len d r m' this')
  note dec = 0(1)
  from 0 have d: "\<not> d < 10" by simp
  show ?case
  proof (cases "paused this")
    case True
    then show ?thesis
      using dec 0(3) by (auto simp: Decode_rec_paused memset_def split: sum.splits if_splits)
  next
    case False
    obtain res stores b1 where f: "FillBuffer vt (derived this) m buf len = (res, stores, b1)"
      by (cases "FillBuffer vt (derived this) m buf len") auto
    have ms: "(m ++ stores) i \<noteq> None"
      using 0(3) by (auto simp: map_add_def split: option.splits)
    show ?thesis
    proof (cases "zero_fill (m ++ stores) buf len res")
      case (Inl e)
      then show ?thesis using dec Decode_rec_fill_error[OF False f Inl] by simp
    next
      case (Inr m2)
      then show ?thesis
        using dec Decode_rec_no_loop[OF False f Inr, of d] d zero_fill_keeps[OF Inr ms] by auto
    qed
  qed
next
  case (Suc k this m buf len d r m' this')
  note dec = Suc.prems(1)
  from Suc.prems have d: "d < 10" by simp
  show ?case
  proof (cases "paused this")
    case True
    then show ?thesis
      using dec Suc.prems(3) by (auto simp: Decode_rec_paused memset_def split: sum.splits if_splits)
  next
    case False
    obtain res stores b1 where f: "FillBuffer vt (derived this) m buf len = (res, stores, b1)"
      by (cases "FillBuffer vt (derived this) m buf len") auto
    have ms: "(m ++ stores) i \<noteq> None"
      using Suc.prems(3) by (auto simp: map_add_def split: option.splits)
    show ?thesis
    proof (cases "zero_fill (m ++ stores) buf len res")
      case (Inl e)
      then show ?thesis using dec Decode_rec_fill_error[OF False f Inl] by simp
    next
      case (Inr m2)
      note m2 = zero_fill_keeps[OF Inr ms]
      show ?thesis
      proof (cases "IsFinished vt b1 \<and> looping this")
        case nl: False
        then show ?thesis using dec Decode_rec_no_loop[OF False f Inr, of d] m2 by auto
      next
        case True
        note eq = Decode_rec_loop[OF False f Inr _ _ d]
        show ?thesis
        proof (cases "Rewind NDEBUG vt (this\<lparr>derived := b1, loop_count := loop_count this + 1\<rparr>)")
          case (Inl e)
          then show ?thesis using dec eq True by simp
        next
          case rw: (Inr this3)
          show ?thesis
          proof (cases "len - res > 0")
            case nrec: False
            then show ?thesis using dec eq True rw m2 by auto
          next
            case rec: True
            from dec eq True rw rec obtain r2 where
              r2: "Decode_rec NDEBUG vt this3 m2 (buf + res) (len - res) (d + 1) = Inr (r2, m', this')"
              by (auto split: sum.splits if_splits)
            show ?thesis
              using Suc.prems d m2 by (intro Suc.IH[OF r2]) simp_all
          qed
        qed
      qed
    qed
  qed
qed

lemma fill_contractD:
  "fill_contract vt \<Longrightarrow> 0 \<le> n \<Longrightarrow> FillBuffer vt b m p n = (res, stores, b') \<Longrightarrow>
   res \<le> n \<and> (\<forall>i. p \<le> i \<and> i < p + res \<longrightarrow> stores i \<noteq> None)"
  unfolding fill_contract_def
  by (drule spec[of _ b], drule spec[of _ m], drule spec[of _ p], drule spec[of _ n]) simp

lemma fill_contract_inside:
  "fill_contract vt \<Longrightarrow> 0 \<le> n \<Longrightarrow> FillBuffer vt b m p n = (res, stores, b') \<Longrightarrow>
   i < p \<or> p + n \<le> i \<Longrightarrow> stores i = None"
  unfolding fill_contract_def
  by (drule spec[of _ b], drule spec[of _ m], drule spec[of _ p], drule spec[of _ n]) auto

lemma stores_onlyD:
  "stores_only P vt \<Longrightarrow> FillBuffer vt b m p n = (res, stores, b') \<Longrightarrow> stores i = Some v \<Longrightarrow> P v"
  unfolding stores_only_def
  by (drule spec[of _ b], drule spec[of _ m], drule spec[of _ p], drule spec[of _ n],
      drule spec[of _ i], drule spec[of _ v]) simp

lemma no_negative_reentryD:
  "no_negative_reentry vt this \<Longrightarrow> looping this \<Longrightarrow>
   FillBuffer vt b m p n = (res, stores, b') \<Longrightarrow> IsFinished vt b' \<Longrightarrow> 0 \<le> res"
  unfolding no_negative_reentry_def
  by (drule mp, assumption, drule spec[of _ b], drule spec[of _ m], drule spec[of _ p],
      drule spec[of _ n]) auto

lemma filled_defined:
  assumes c: "res \<le> len" "\<forall>i. buf \<le> i \<and> i < buf + res \<longrightarrow> stores i \<noteq> None"
    and z: "zero_fill (m ++ stores) buf len res = Inr m2"
  shows "defined_on m2 buf len"
  unfolding defined_on_def
proof (intro allI impI)
  fix i assume i: "buf \<le> i \<and> i < buf + len"
  show "m2 i \<noteq> None"
  proof (cases "(res < 0 \<and> buf \<le> i \<and> i < buf + len) \<or> (0 \<le> res \<and> buf + res \<le> i \<and> i < buf + len)")
    case True
    then show ?thesis by (simp add: zero_fill_at[OF z])
  next
    case False
    with i have "buf \<le> i \<and> i < buf + res" by auto
    then have "stores i \<noteq> None" using c(2) by blast
    then have "(m ++ stores) i \<noteq> None" by (auto simp: map_add_def split: option.splits)
    then show ?thesis by (rule zero_fill_keeps[OF z])
  qed
qed

text \<open>
  With a backend within its contract, one call defines the whole destination and
  returns at most its length.
\<close>

lemma Decode_rec_defined:
  assumes c: "fill_contract vt"
  shows "Decode_rec NDEBUG vt this m buf len d = Inr (r, m', this') \<Longrightarrow> k = nat (10 - d) \<Longrightarrow> 0 \<le> len \<Longrightarrow>
   defined_on m' buf len \<and> r \<le> len"
proof (induction k arbitrary: this m buf len d r m' this')
  case (0 this m buf len d r m' this')
  note dec = 0(1)
  from 0 have d: "\<not> d < 10" by simp
  show ?case
  proof (cases "paused this")
    case True
    then show ?thesis
      using dec by (auto simp: Decode_rec_paused memset_def defined_on_def split: sum.splits if_splits)
  next
    case False
    obtain res stores b1 where f: "FillBuffer vt (derived this) m buf len = (res, stores, b1)"
      by (cases "FillBuffer vt (derived this) m buf len") auto
    note fc = fill_contractD[OF c 0(3) f]
    show ?thesis
    proof (cases "zero_fill (m ++ stores) buf len res")
      case (Inl e)
      then show ?thesis using dec Decode_rec_fill_error[OF False f Inl] by simp
    next
      case (Inr m2)
      have "defined_on m2 buf len" using filled_defined[OF _ _ Inr] fc by blast
      then show ?thesis using dec Decode_rec_no_loop[OF False f Inr, of d] d fc by auto
    qed
  qed
next
  case (Suc k this m buf len d r m' this')
  note dec = Suc.prems(1)
  from Suc.prems have d: "d < 10" by simp
  show ?case
  proof (cases "paused this")
    case True
    then show ?thesis
      using dec by (auto simp: Decode_rec_paused memset_def defined_on_def split: sum.splits if_splits)
  next
    case False
    obtain res stores b1 where f: "FillBuffer vt (derived this) m buf len = (res, stores, b1)"
      by (cases "FillBuffer vt (derived this) m buf len") auto
    note fc = fill_contractD[OF c Suc.prems(3) f]
    show ?thesis
    proof (cases "zero_fill (m ++ stores) buf len res")
      case (Inl e)
      then show ?thesis using dec Decode_rec_fill_error[OF False f Inl] by simp
    next
      case (Inr m2)
      have m2: "defined_on m2 buf len" using filled_defined[OF _ _ Inr] fc by blast
      show ?thesis
      proof (cases "IsFinished vt b1 \<and> looping this")
        case nl: False
        then show ?thesis using dec Decode_rec_no_loop[OF False f Inr, of d] m2 fc by auto
      next
        case True
        note eq = Decode_rec_loop[OF False f Inr _ _ d]
        show ?thesis
        proof (cases "Rewind NDEBUG vt (this\<lparr>derived := b1, loop_count := loop_count this + 1\<rparr>)")
          case (Inl e)
          then show ?thesis using dec eq True by simp
        next
          case rw: (Inr this3)
          show ?thesis
          proof (cases "len - res > 0")
            case nrec: False
            then show ?thesis using dec eq True rw m2 fc by auto
          next
            case rec: True
            from dec eq True rw rec obtain r2 where
              r2: "Decode_rec NDEBUG vt this3 m2 (buf + res) (len - res) (d + 1) = Inr (r2, m', this')"
              and r: "r = (if r2 \<le> 0 then res else res + r2)"
              by (auto split: sum.splits if_splits)
            have ih: "defined_on m' (buf + res) (len - res) \<and> r2 \<le> len - res"
              using Suc.prems d rec by (intro Suc.IH[OF r2]) simp_all
            have keep: "\<And>i. m2 i \<noteq> None \<Longrightarrow> m' i \<noteq> None"
              using Decode_rec_keeps_defined[OF r2 refl] by blast
            have "defined_on m' buf len"
              unfolding defined_on_def
            proof (intro allI impI)
              fix i assume i: "buf \<le> i \<and> i < buf + len"
              show "m' i \<noteq> None"
              proof (cases "buf + res \<le> i")
                case True
                then show ?thesis using ih i by (auto simp: defined_on_def)
              next
                case False
                then show ?thesis using keep m2 i by (auto simp: defined_on_def)
              qed
            qed
            then show ?thesis using ih r fc by auto
          qed
        qed
      qed
    qed
  qed
qed

text \<open>
  With a length that is not negative \<^verbatim>\<open>Decode\<close> returns, if the rewind works, or is
  not needed (looping is off), or its assertion is compiled out.
\<close>

lemma Rewind_returns:
  "fst (Seek vt (derived this) 0 Beg) \<or> NDEBUG \<Longrightarrow>
   \<exists>b. Rewind NDEBUG vt this = Inr (this\<lparr>derived := b\<rparr>)"
  by (cases "Seek vt (derived this) 0 Beg") (auto simp: Rewind_def)

lemma Decode_rec_returns:
  "k = nat (10 - d) \<Longrightarrow> 0 \<le> len \<Longrightarrow> rewind_works vt \<or> NDEBUG \<or> \<not> looping this \<Longrightarrow>
    \<exists>r m' this'. Decode_rec NDEBUG vt this m buf len d = Inr (r, m', this')"
proof (induction k arbitrary: this m buf len d)
  case (0 this m buf len d)
  from 0 have d: "\<not> d < 10" by simp
  show ?case
  proof (cases "paused this")
    case True
    then show ?thesis using 0(2) by (simp add: Decode_rec_paused memset_def)
  next
    case False
    obtain res stores b1 where f: "FillBuffer vt (derived this) m buf len = (res, stores, b1)"
      by (cases "FillBuffer vt (derived this) m buf len") auto
    obtain m2 where z: "zero_fill (m ++ stores) buf len res = Inr m2"
      using zero_fill_ok[of len res] 0(2) by force
    show ?thesis using Decode_rec_no_loop[OF False f z, of d] d by simp
  qed
next
  case (Suc k this m buf len d)
  from Suc.prems have d: "d < 10" by simp
  show ?case
  proof (cases "paused this")
    case True
    then show ?thesis using Suc.prems(2) by (simp add: Decode_rec_paused memset_def)
  next
    case False
    obtain res stores b1 where f: "FillBuffer vt (derived this) m buf len = (res, stores, b1)"
      by (cases "FillBuffer vt (derived this) m buf len") auto
    obtain m2 where z: "zero_fill (m ++ stores) buf len res = Inr m2"
      using zero_fill_ok[of len res] Suc.prems(2) by force
    show ?thesis
    proof (cases "IsFinished vt b1 \<and> looping this")
      case nl: False
      then show ?thesis using Decode_rec_no_loop[OF False f z, of d] by auto
    next
      case True
      note eq = Decode_rec_loop[OF False f z _ _ d]
      have "fst (Seek vt b1 0 Beg) \<or> NDEBUG"
        using Suc.prems(3) True by (auto simp: rewind_works_def)
      then obtain b where
        rw: "Rewind NDEBUG vt (this\<lparr>derived := b1, loop_count := loop_count this + 1\<rparr>) =
               Inr (this\<lparr>derived := b1, loop_count := loop_count this + 1, derived := b\<rparr>)"
        using Rewind_returns[of vt "this\<lparr>derived := b1, loop_count := loop_count this + 1\<rparr>" NDEBUG]
        by auto
      show ?thesis
      proof (cases "len - res > 0")
        case nrec: False
        then show ?thesis using eq True rw by auto
      next
        case rec: True
        have "\<exists>r m' this'. Decode_rec NDEBUG vt
                (this\<lparr>derived := b1, loop_count := loop_count this + 1, derived := b\<rparr>)
                m2 (buf + res) (len - res) (d + 1) = Inr (r, m', this')"
          using Suc.prems d rec by (intro Suc.IH) auto
        then show ?thesis using eq True rw rec by auto
      qed
    qed
  qed
qed

text \<open>Without a loop re-entry the result is that of \<^verbatim>\<open>FillBuffer\<close>, and the rest is zero.\<close>

lemma Decode_no_reentry:
  assumes c: "fill_contract vt" and len: "0 \<le> len" and np: "\<not> paused this"
    and f: "FillBuffer vt (derived this) m buf len = (res, stores, b1)"
    and nl: "\<not> (IsFinished vt b1 \<and> looping this)"
    and dec: "Decode_rec NDEBUG vt this m buf len d = Inr (r, m', this')"
  shows "r = res \<and>
         (res < 0 \<longrightarrow> zero_on m' buf len) \<and>
         (0 \<le> res \<longrightarrow> zero_on m' (buf + res) (len - res) \<and>
            (\<forall>i. buf \<le> i \<and> i < buf + res \<longrightarrow> m' i = stores i))"
proof -
  obtain m2 where z: "zero_fill (m ++ stores) buf len res = Inr m2"
    using zero_fill_ok[of len res] len by force
  have eq: "r = res" "m' = m2" using dec Decode_rec_no_loop[OF np f z, of d] nl by auto
  note fc = fill_contractD[OF c len f]
  have neg: "res < 0 \<longrightarrow> zero_on m2 buf len"
    by (simp add: zero_on_def zero_fill_at[OF z])
  have rest: "0 \<le> res \<longrightarrow> zero_on m2 (buf + res) (len - res)"
    by (simp add: zero_on_def zero_fill_at[OF z])
  have front: "0 \<le> res \<longrightarrow> (\<forall>i. buf \<le> i \<and> i < buf + res \<longrightarrow> m2 i = stores i)"
  proof (intro impI allI)
    fix i assume r0: "0 \<le> res" and i: "buf \<le> i \<and> i < buf + res"
    then have "stores i \<noteq> None" using fc by blast
    then have "(m ++ stores) i = stores i" by (auto simp: map_add_def split: option.splits)
    then show "m2 i = stores i" using i r0 by (simp add: zero_fill_at[OF z])
  qed
  show ?thesis using eq neg rest front by simp
qed

text \<open>
  Two runs of the model. The three-byte decoder, looping, fills a request of eight
  bytes in three passes over its stream, with two re-entries.
\<close>

lemma Decode_looping_example:
  "\<exists>m' this'. Decode NDEBUG tone_vtable (SetLooping True tone_decoder) Map.empty 0 8 =
       Inr (8, m', this') \<and>
     map m' [0, 1, 2, 3, 4, 5, 6, 7] = replicate 8 (Some 0x2A) \<and>
     loop_count this' = 2 \<and> derived this' = 1"
  by (simp add: Decode_def Decode_rec.simps tone_vtable_def SetLooping_def tone_decoder_def
      zero_fill_def memset_def Rewind_def report_depth_def map_add_def eval_nat_numeral)

text \<open>
  A negative result of \<^verbatim>\<open>FillBuffer\<close> on a finished, looping decoder: the re-entry is
  \<^verbatim>\<open>Decode(&buffer[res], length - res, ...)\<close> with \<open>res = - 1\<close>, one byte before the
  destination and one byte longer, at each of the ten depths. The sentinel decoder of
  this file is such a decoder; its \<^verbatim>\<open>Seek\<close> fails, so with assertions the program ends
  in \<^verbatim>\<open>Rewind\<close>, and without them (\<^verbatim>\<open>NDEBUG\<close>) the ten bytes before the destination
  are overwritten.
\<close>

lemma Decode_negative_result_reentry:
  "Decode False WMAUnsupportedFormatDecoder_vtable (SetLooping True sentinel) Map.empty 0 8 =
     Inl (AssertionFailed ''Rewind'') \<and>
   (\<exists>m' this'.
      Decode True WMAUnsupportedFormatDecoder_vtable (SetLooping True sentinel) Map.empty 0 8 =
        Inr (- 1, m', this') \<and>
      m' (- 1) = Some 0 \<and> m' (- 10) = Some 0 \<and> m' (- 11) = None \<and> loop_count this' = 10)"
  by (simp add: Decode_def Decode_rec.simps WMAUnsupportedFormatDecoder_vtable_def SetLooping_def
      sentinel_def WMAUnsupportedFormatDecoder_ctor_def example_decoder_def
      zero_fill_def memset_def Rewind_def report_depth_def)

text \<open>
  The memory after \<^verbatim>\<open>FillBuffer\<close> and the zero fill: outside the destination as
  before, then the bytes stored, then zeros.
\<close>

lemma filled_result:
  assumes c: "fill_contract vt" and sp: "stores_only P vt" and len: "0 \<le> len"
    and f: "FillBuffer vt b m buf len = (res, stores, b1)"
    and z: "zero_fill (m ++ stores) buf len res = Inr m2"
  shows "(\<forall>i. i < buf \<or> buf + len \<le> i \<longrightarrow> m2 i = m i) \<and>
         (res < 0 \<longrightarrow> zero_on m2 buf len) \<and>
         (0 \<le> res \<longrightarrow> zero_on m2 (buf + res) (len - res) \<and>
            (\<forall>i. buf \<le> i \<and> i < buf + res \<longrightarrow> m2 i = stores i \<and> (\<exists>v. m2 i = Some v \<and> P v)))"
proof -
  note fc = fill_contractD[OF c len f]
  have out: "\<forall>i. i < buf \<or> buf + len \<le> i \<longrightarrow> m2 i = m i"
  proof (intro allI impI)
    fix i assume i: "i < buf \<or> buf + len \<le> i"
    then have "stores i = None" by (rule fill_contract_inside[OF c len f])
    then have "(m ++ stores) i = m i" by (simp add: map_add_def)
    then show "m2 i = m i" using i len by (auto simp: zero_fill_at[OF z])
  qed
  have neg: "res < 0 \<longrightarrow> zero_on m2 buf len"
    by (simp add: zero_on_def zero_fill_at[OF z])
  have rest: "0 \<le> res \<longrightarrow> zero_on m2 (buf + res) (len - res)"
    by (simp add: zero_on_def zero_fill_at[OF z])
  have front: "0 \<le> res \<longrightarrow>
      (\<forall>i. buf \<le> i \<and> i < buf + res \<longrightarrow> m2 i = stores i \<and> (\<exists>v. m2 i = Some v \<and> P v))"
  proof (intro impI allI)
    fix i assume r0: "0 \<le> res" and i: "buf \<le> i \<and> i < buf + res"
    then obtain v where v: "stores i = Some v" using fc by blast
    then have "(m ++ stores) i = stores i" by (simp add: map_add_def)
    then have eq: "m2 i = stores i" using i r0 by (simp add: zero_fill_at[OF z])
    have "P v" using stores_onlyD[OF sp f v] .
    then show "m2 i = stores i \<and> (\<exists>v. m2 i = Some v \<and> P v)" using eq v by simp
  qed
  show ?thesis using out neg rest front by blast
qed

lemma no_negative_reentry_update:
  "no_negative_reentry vt this \<Longrightarrow> looping this3 = looping this \<Longrightarrow> no_negative_reentry vt this3"
  by (simp add: no_negative_reentry_def)

text \<open>
  With a backend within its contract, and no re-entry after a negative result, one call
  of a decoder that is not paused leaves the memory outside the destination as it was;
  a negative return leaves the destination zero; a return \<open>r \<ge> 0\<close> leaves \<open>r\<close> bytes
  that \<^verbatim>\<open>FillBuffer\<close> stored, followed by zeros.
\<close>

lemma Decode_rec_produced:
  assumes c: "fill_contract vt" and sp: "stores_only P vt"
  shows "Decode_rec NDEBUG vt this m buf len d = Inr (r, m', this') \<Longrightarrow> k = nat (10 - d) \<Longrightarrow>
    0 \<le> len \<Longrightarrow> \<not> paused this \<Longrightarrow> no_negative_reentry vt this \<Longrightarrow>
    (\<forall>i. i < buf \<or> buf + len \<le> i \<longrightarrow> m' i = m i) \<and>
    (r < 0 \<longrightarrow> zero_on m' buf len) \<and>
    (0 \<le> r \<longrightarrow> zero_on m' (buf + r) (len - r) \<and>
       (\<forall>i. buf \<le> i \<and> i < buf + r \<longrightarrow> (\<exists>v. m' i = Some v \<and> P v)))"
proof (induction k arbitrary: this m buf len d r m' this')
  case (0 this m buf len d r m' this')
  note dec = 0(1) and np = 0(4)
  from 0 have d: "\<not> d < 10" by simp
  obtain res stores b1 where f: "FillBuffer vt (derived this) m buf len = (res, stores, b1)"
    by (cases "FillBuffer vt (derived this) m buf len") auto
  obtain m2 where z: "zero_fill (m ++ stores) buf len res = Inr m2"
    using zero_fill_ok[of len res] 0(3) by force
  have eq: "r = res" "m' = m2" using dec Decode_rec_no_loop[OF np f z, of d] d by auto
  show ?case using filled_result[OF c sp 0(3) f z] unfolding eq by blast
next
  case (Suc k this m buf len d r m' this')
  note dec = Suc.prems(1) and len = Suc.prems(3) and np = Suc.prems(4) and nn = Suc.prems(5)
  from Suc.prems have d: "d < 10" by simp
  obtain res stores b1 where f: "FillBuffer vt (derived this) m buf len = (res, stores, b1)"
    by (cases "FillBuffer vt (derived this) m buf len") auto
  obtain m2 where z: "zero_fill (m ++ stores) buf len res = Inr m2"
    using zero_fill_ok[of len res] len by force
  note fr = filled_result[OF c sp len f z]
  note fc = fill_contractD[OF c len f]
  show ?case
  proof (cases "IsFinished vt b1 \<and> looping this")
    case nl: False
    then have eq: "r = res" "m' = m2" using dec Decode_rec_no_loop[OF np f z, of d] by auto
    show ?thesis using fr unfolding eq by blast
  next
    case True
    note eq = Decode_rec_loop[OF np f z _ _ d]
    have res0: "0 \<le> res" using no_negative_reentryD[OF nn _ f] True by blast
    show ?thesis
    proof (cases "Rewind NDEBUG vt (this\<lparr>derived := b1, loop_count := loop_count this + 1\<rparr>)")
      case (Inl e)
      then show ?thesis using dec eq True by simp
    next
      case rw: (Inr this3)
      from Rewind_Inr[OF rw] have t3: "paused this3 = paused this" "looping this3 = looping this"
        by auto
      show ?thesis
      proof (cases "len - res > 0")
        case nrec: False
        then have e2: "r = res" "m' = m2" using dec eq True rw by auto
        show ?thesis using fr unfolding e2 by blast
      next
        case rec: True
        from dec eq True rw rec obtain r2 where
          r2: "Decode_rec NDEBUG vt this3 m2 (buf + res) (len - res) (d + 1) = Inr (r2, m', this')"
          and r: "r = (if r2 \<le> 0 then res else res + r2)"
          by (auto split: sum.splits if_splits)
        have ih: "(\<forall>i. i < buf + res \<or> buf + res + (len - res) \<le> i \<longrightarrow> m' i = m2 i) \<and>
            (r2 < 0 \<longrightarrow> zero_on m' (buf + res) (len - res)) \<and>
            (0 \<le> r2 \<longrightarrow> zero_on m' (buf + res + r2) (len - res - r2) \<and>
               (\<forall>i. buf + res \<le> i \<and> i < buf + res + r2 \<longrightarrow> (\<exists>v. m' i = Some v \<and> P v)))"
          using Suc.prems d rec t3 no_negative_reentry_update[OF nn t3(2)]
          by (intro Suc.IH[OF r2]) simp_all
        have out: "\<forall>i. i < buf \<or> buf + len \<le> i \<longrightarrow> m' i = m i"
        proof (intro allI impI)
          fix i assume i: "i < buf \<or> buf + len \<le> i"
          then have "m' i = m2 i" using ih res0 by auto
          then show "m' i = m i" using fr i by simp
        qed
        have front: "\<forall>i. buf \<le> i \<and> i < buf + res \<longrightarrow> (\<exists>v. m' i = Some v \<and> P v)"
        proof (intro allI impI)
          fix i assume i: "buf \<le> i \<and> i < buf + res"
          then have "m' i = m2 i" using ih by auto
          moreover have "\<exists>v. m2 i = Some v \<and> P v" using fr res0 i by blast
          ultimately show "\<exists>v. m' i = Some v \<and> P v" by simp
        qed
        have r0: "0 \<le> r" using r res0 by auto
        have zero: "zero_on m' (buf + r) (len - r)"
        proof (cases "r2 \<le> 0")
          case True
          then have "zero_on m' (buf + res) (len - res)"
            using ih by (cases "r2 < 0") auto
          then show ?thesis using r True by simp
        next
          case False
          then have "zero_on m' (buf + res + r2) (len - res - r2)" using ih by auto
          then show ?thesis using r False by (simp add: add.assoc diff_diff_eq)
        qed
        have prod: "\<forall>i. buf \<le> i \<and> i < buf + r \<longrightarrow> (\<exists>v. m' i = Some v \<and> P v)"
        proof (intro allI impI)
          fix i assume i: "buf \<le> i \<and> i < buf + r"
          show "\<exists>v. m' i = Some v \<and> P v"
          proof (cases "i < buf + res")
            case True
            then show ?thesis using front i by blast
          next
            case False
            then have "0 < r2 \<and> buf + res \<le> i \<and> i < buf + res + r2"
              using i r by (auto split: if_splits)
            then show ?thesis using ih by auto
          qed
        qed
        show ?thesis using out r0 zero prod by auto
      qed
    qed
  qed
qed

text \<open>The return, the first result of \<^verbatim>\<open>FillBuffer\<close> and the bytes of the first call.\<close>

lemma stores_only_True: "stores_only (\<lambda>v. True) vt"
  by (simp add: stores_only_def)

lemma Decode_rec_first_result:
  assumes c: "fill_contract vt" and len: "0 \<le> len" and np: "\<not> paused this"
    and nn: "no_negative_reentry vt this"
    and f: "FillBuffer vt (derived this) m buf len = (res, stores, b1)"
    and dec: "Decode_rec NDEBUG vt this m buf len d = Inr (r, m', this')"
  shows "(res < 0 \<longrightarrow> r = res) \<and>
         (0 \<le> res \<longrightarrow> res \<le> r \<and> (\<forall>i. buf \<le> i \<and> i < buf + res \<longrightarrow> m' i = stores i)) \<and>
         (\<not> (IsFinished vt b1 \<and> looping this) \<longrightarrow> r = res)"
proof -
  obtain m2 where z: "zero_fill (m ++ stores) buf len res = Inr m2"
    using zero_fill_ok[of len res] len by force
  note fr = filled_result[OF c stores_only_True len f z]
  show ?thesis
  proof (cases "IsFinished vt b1 \<and> looping this \<and> d < 10")
    case False
    then have "r = res" "m' = m2" using dec Decode_rec_no_loop[OF np f z, of d] by auto
    then show ?thesis using fr by simp
  next
    case True
    have res0: "0 \<le> res" using no_negative_reentryD[OF nn _ f] True by blast
    note eq = Decode_rec_loop[OF np f z, of d NDEBUG]
    show ?thesis
    proof (cases "Rewind NDEBUG vt (this\<lparr>derived := b1, loop_count := loop_count this + 1\<rparr>)")
      case (Inl e)
      then show ?thesis using dec eq True by simp
    next
      case rw: (Inr this3)
      from Rewind_Inr[OF rw] have t3: "paused this3 = paused this" "looping this3 = looping this"
        by auto
      show ?thesis
      proof (cases "len - res > 0")
        case nrec: False
        then have "r = res" "m' = m2" using dec eq True rw by auto
        then show ?thesis using fr True by simp
      next
        case rec: True
        from dec eq True rw rec obtain r2 where
          r2: "Decode_rec NDEBUG vt this3 m2 (buf + res) (len - res) (d + 1) = Inr (r2, m', this')"
          and r: "r = (if r2 \<le> 0 then res else res + r2)"
          by (auto split: sum.splits if_splits)
        have "\<forall>i. i < buf + res \<or> buf + res + (len - res) \<le> i \<longrightarrow> m' i = m2 i"
          using Decode_rec_produced[OF c stores_only_True r2 refl, of ] rec np t3
            no_negative_reentry_update[OF nn t3(2)]
          by simp
        then have "\<forall>i. buf \<le> i \<and> i < buf + res \<longrightarrow> m' i = stores i"
          using fr res0 by simp
        then show ?thesis using r res0 True by auto
      qed
    qed
  qed
qed

section \<open>Claims about Decode and DecodeAll\<close>

text \<open>
  Claim C1, as amended. The claim says that \<^verbatim>\<open>Decode(buffer, length)\<close> leaves all
  \<open>length\<close> destination bytes defined and returns exactly \<open>length\<close>, for every result
  of \<^verbatim>\<open>FillBuffer\<close>. The bytes are defined, but the returned number is the number of
  bytes produced, which can be smaller than \<open>length\<close>, and is the negative result
  itself when \<^verbatim>\<open>FillBuffer\<close> fails.

  The amended claim is about a decoder whose \<^verbatim>\<open>FillBuffer\<close> is within its contract
  and on which a negative result is not followed by a loop re-entry (looping is off, or
  the backend is not finished after a negative result; the code's re-entry at
  \<^verbatim>\<open>&buffer[res]\<close> with a negative \<open>res\<close> is left out). For every such decoder,
  every memory, every destination and every length that is not negative,
  \<^verbatim>\<open>Decode\<close> returns (given that the rewind works, or is not needed because looping
  is off, or its assertion is compiled out). Afterwards every byte of the destination
  is defined and the memory outside the destination is as before; the returned number
  \<open>r\<close> is at most the length. While paused, \<open>r\<close> is the length and the destination is
  zero. When not paused, \<open>r\<close> is the number of bytes produced: if \<open>r \<ge> 0\<close>, the first
  \<open>r\<close> bytes of the destination are bytes that \<^verbatim>\<open>FillBuffer\<close> stored (each has every
  property \<open>P\<close> that all stored bytes have) and the bytes from \<open>r\<close> on are zero; if
  \<open>r < 0\<close>, the entire destination is zero. After a negative first result \<open>res\<close> of
  \<^verbatim>\<open>FillBuffer\<close>, \<open>r = res\<close>; after a result \<open>0 \<le> res\<close>, \<open>r \<ge> res\<close> and the first
  \<open>res\<close> bytes are those of the first call; and without a loop re-entry (the backend
  is not finished, or looping is off) \<open>r = res\<close>.
\<close>

theorem Decode_fills_destination:
  assumes "fill_contract vt" and "stores_only P vt" and "no_negative_reentry vt this"
    and "rewind_works vt \<or> NDEBUG \<or> \<not> looping this" and "0 \<le> len"
  shows "\<exists>r m' this'. Decode NDEBUG vt this m buf len = Inr (r, m', this') \<and>
           defined_on m' buf len \<and> r \<le> len \<and>
           (\<forall>i. i < buf \<or> buf + len \<le> i \<longrightarrow> m' i = m i) \<and>
           (paused this \<longrightarrow> r = len \<and> zero_on m' buf len) \<and>
           (\<not> paused this \<longrightarrow>
              (r < 0 \<longrightarrow> zero_on m' buf len) \<and>
              (0 \<le> r \<longrightarrow> zero_on m' (buf + r) (len - r) \<and>
                 (\<forall>i. buf \<le> i \<and> i < buf + r \<longrightarrow> (\<exists>v. m' i = Some v \<and> P v))) \<and>
              (\<forall>res stores b1.
                 FillBuffer vt (derived this) m buf len = (res, stores, b1) \<longrightarrow>
                   (res < 0 \<longrightarrow> r = res) \<and>
                   (0 \<le> res \<longrightarrow> res \<le> r \<and>
                      (\<forall>i. buf \<le> i \<and> i < buf + res \<longrightarrow> m' i = stores i)) \<and>
                   (\<not> (IsFinished vt b1 \<and> looping this) \<longrightarrow> r = res)))"
proof -
  obtain r m' this' where dec: "Decode_rec NDEBUG vt this m buf len 0 = Inr (r, m', this')"
    using Decode_rec_returns[OF refl assms(5) assms(4)] by blast
  have def: "defined_on m' buf len \<and> r \<le> len"
    using Decode_rec_defined[OF assms(1) dec refl assms(5)] .
  have p: "paused this \<longrightarrow> r = len \<and> zero_on m' buf len"
    using dec by (auto simp: Decode_rec_paused memset_def zero_on_def split: sum.splits if_splits)
  have out: "\<forall>i. i < buf \<or> buf + len \<le> i \<longrightarrow> m' i = m i"
  proof (cases "paused this")
    case True
    then show ?thesis
      using dec by (auto simp: Decode_rec_paused memset_def split: sum.splits if_splits)
  next
    case False
    then show ?thesis
      using Decode_rec_produced[OF assms(1,2) dec refl assms(5) _ assms(3)] by blast
  qed
  have prod: "\<not> paused this \<longrightarrow>
              (r < 0 \<longrightarrow> zero_on m' buf len) \<and>
              (0 \<le> r \<longrightarrow> zero_on m' (buf + r) (len - r) \<and>
                 (\<forall>i. buf \<le> i \<and> i < buf + r \<longrightarrow> (\<exists>v. m' i = Some v \<and> P v)))"
    using Decode_rec_produced[OF assms(1,2) dec refl assms(5) _ assms(3)] by blast
  have first: "\<not> paused this \<longrightarrow>
              (\<forall>res stores b1.
                 FillBuffer vt (derived this) m buf len = (res, stores, b1) \<longrightarrow>
                   (res < 0 \<longrightarrow> r = res) \<and>
                   (0 \<le> res \<longrightarrow> res \<le> r \<and>
                      (\<forall>i. buf \<le> i \<and> i < buf + res \<longrightarrow> m' i = stores i)) \<and>
                   (\<not> (IsFinished vt b1 \<and> looping this) \<longrightarrow> r = res))"
    using Decode_rec_first_result[OF assms(1,5) _ assms(3) _ dec] by blast
  show ?thesis
    unfolding Decode_def
    by (rule exI[of _ r], rule exI[of _ m'], rule exI[of _ this'])
      (use dec def p out prod first in blast)
qed

text \<open>
  The three-byte decoder, looping, asked for eight bytes: the theorem applies, on the
  re-entry path; the call returns 8 and all eight bytes are bytes of the stream.
\<close>

theorem Decode_fills_destination_witness:
  "fill_contract tone_vtable \<and> stores_only (\<lambda>v. v = 0x2A) tone_vtable \<and>
   no_negative_reentry tone_vtable (SetLooping True tone_decoder) \<and>
   rewind_works tone_vtable \<and> (0::int) \<le> 8 \<and>
   (\<exists>m' this'. Decode False tone_vtable (SetLooping True tone_decoder) Map.empty 0 8 =
        Inr (8, m', this') \<and>
      defined_on m' 0 8 \<and> (\<forall>i. 0 \<le> i \<and> i < 8 \<longrightarrow> m' i = Some 0x2A) \<and>
      (\<forall>i. i < 0 \<or> 8 \<le> i \<longrightarrow> m' i = None))"
proof -
  have c: "fill_contract tone_vtable"
    by (auto simp: fill_contract_def tone_vtable_def split: if_splits)
  have sp: "stores_only (\<lambda>v. v = 0x2A) tone_vtable"
    by (auto simp: stores_only_def tone_vtable_def split: if_splits)
  have nn: "no_negative_reentry tone_vtable (SetLooping True tone_decoder)"
    by (auto simp: no_negative_reentry_def tone_vtable_def)
  have w: "rewind_works tone_vtable"
    by (simp add: rewind_works_def tone_vtable_def)
  have np: "\<not> paused (SetLooping True tone_decoder)"
    by (simp add: SetLooping_def tone_decoder_def)
  have pre: "rewind_works tone_vtable \<or> False \<or> \<not> looping (SetLooping True tone_decoder)"
    using w by blast
  have l: "(0::int) \<le> 8"
    by simp
  have inst: "\<exists>r m' this'.
      Decode False tone_vtable (SetLooping True tone_decoder) Map.empty 0 8 = Inr (r, m', this') \<and>
      defined_on m' 0 8 \<and> (\<forall>i. i < 0 \<or> 0 + 8 \<le> i \<longrightarrow> m' i = None) \<and>
      (0 \<le> r \<longrightarrow> (\<forall>i. 0 \<le> i \<and> i < 0 + r \<longrightarrow> (\<exists>v. m' i = Some v \<and> v = 0x2A)))"
    using Decode_fills_destination[OF c sp nn pre l, where m = Map.empty and buf = 0] np
    by (elim exE conjE) (intro exI conjI, assumption, assumption, assumption, simp)
  have "\<exists>m0 t0. Decode False tone_vtable (SetLooping True tone_decoder) Map.empty 0 8 =
      Inr (8, m0, t0)"
    using Decode_looping_example[of False] by (elim exE conjE) (intro exI, assumption)
  then obtain m0 t0 where
    run: "Decode False tone_vtable (SetLooping True tone_decoder) Map.empty 0 8 = Inr (8, m0, t0)"
    by (elim exE)
  have bytes: "defined_on m0 0 8 \<and> (\<forall>i. 0 \<le> i \<and> i < 8 \<longrightarrow> m0 i = Some 0x2A) \<and>
      (\<forall>i. i < 0 \<or> 8 \<le> i \<longrightarrow> m0 i = None)"
    using inst unfolding run by (elim exE conjE) simp
  show ?thesis
    unfolding run using c sp nn w bytes by (intro conjI exI[of _ m0] exI[of _ t0]; simp)
qed

text \<open>
  The counterexample to C1 as stated: the sentinel decoder of this file, not looping,
  whose \<^verbatim>\<open>FillBuffer\<close> returns \<open>- 1\<close>. Asked for eight bytes, \<^verbatim>\<open>Decode\<close> zero-fills
  them and returns \<open>- 1\<close>, not 8.
\<close>

theorem Decode_returns_length_counterexample:
  "\<forall>NDEBUG. Decode NDEBUG WMAUnsupportedFormatDecoder_vtable sentinel Map.empty 0 8 =
     Inr (- 1, (\<lambda>i. if 0 \<le> i \<and> i < 8 then Some 0 else None), sentinel)"
  by (rule allI, subst Decode_def, subst Decode_rec.simps)
    (auto simp: sentinel_def WMAUnsupportedFormatDecoder_ctor_def example_decoder_def
      WMAUnsupportedFormatDecoder_vtable_def zero_fill_def memset_def report_depth_def
      intro!: ext)

text \<open>
  Claim C2. With a working rewind, one top-level \<^verbatim>\<open>Decode(buf, length)\<close> returns for
  every backend, and \<open>loop_count\<close> has grown by at most 10. For a backend that is
  finished after every call and never fills a request (it produces \<open>k < length\<close> bytes
  on every call), with looping enabled, \<open>loop_count\<close> has grown by exactly 10: the
  recursion re-enters ten times, at depths 1 to 10, adds one to \<open>loop_count\<close> before
  each re-entry, and stops at depth 10, where it only reports (while
  \<open>loop_count < 50\<close>); started at depth \<open>d\<close>, it adds \<open>10 - d\<close>. Termination is that of
  the function \<open>Decode_rec\<close>, whose recursion is on the distance to depth 10.
\<close>

theorem Decode_loop_reentry_bounded:
  assumes "rewind_works vt" and "0 \<le> len"
  shows "(\<exists>r m' this'. Decode NDEBUG vt this m buf len = Inr (r, m', this') \<and>
            loop_count this \<le> loop_count this' \<and> loop_count this' \<le> loop_count this + 10) \<and>
         (always_finished vt \<and> always_short vt \<and> \<not> paused this \<and> looping this \<and> 0 < len \<longrightarrow>
            (\<exists>r m' this'. Decode NDEBUG vt this m buf len = Inr (r, m', this') \<and>
               loop_count this' = loop_count this + 10 \<and>
               debug_output this' =
                 debug_output this @ (if loop_count this + 10 < 50 then [depth_message] else [])) \<and>
            (\<forall>d. 0 \<le> d \<and> d \<le> 10 \<longrightarrow>
               (\<exists>r m' this'. Decode_rec NDEBUG vt this m buf len d = Inr (r, m', this') \<and>
                  loop_count this' = loop_count this + (10 - d))))"
proof (intro conjI impI)
  obtain r m' this' where dec: "Decode_rec NDEBUG vt this m buf len 0 = Inr (r, m', this')"
    using Decode_rec_returns[OF refl assms(2), of vt NDEBUG this m buf] assms(1) by blast
  then have "Decode NDEBUG vt this m buf len = Inr (r, m', this')"
    by (simp add: Decode_def)
  then show "\<exists>r m' this'. Decode NDEBUG vt this m buf len = Inr (r, m', this') \<and>
            loop_count this \<le> loop_count this' \<and> loop_count this' \<le> loop_count this + 10"
    using Decode_loop_count_at_most_10 by blast
next
  assume a: "always_finished vt \<and> always_short vt \<and> \<not> paused this \<and> looping this \<and> 0 < len"
  then have "\<exists>r m' this'. Decode_rec NDEBUG vt this m buf len 0 = Inr (r, m', this') \<and>
       loop_count this' = loop_count this + (10 - 0) \<and>
       debug_output this' =
         debug_output this @ (if loop_count this + (10 - 0) < 50 then [depth_message] else [])"
    using Decode_rec_loops[OF _ _ assms(1) _ _ _ _ refl, of this len 0] by simp
  then show "\<exists>r m' this'. Decode NDEBUG vt this m buf len = Inr (r, m', this') \<and>
               loop_count this' = loop_count this + 10 \<and>
               debug_output this' =
                 debug_output this @ (if loop_count this + 10 < 50 then [depth_message] else [])"
    by (simp add: Decode_def)
next
  assume a: "always_finished vt \<and> always_short vt \<and> \<not> paused this \<and> looping this \<and> 0 < len"
  then show "\<forall>d. 0 \<le> d \<and> d \<le> 10 \<longrightarrow>
               (\<exists>r m' this'. Decode_rec NDEBUG vt this m buf len d = Inr (r, m', this') \<and>
                  loop_count this' = loop_count this + (10 - d))"
    using Decode_rec_loops[OF _ _ assms(1) _ _ _ _ refl, of this len] by blast
qed

text \<open>The decoder of an empty stream, looping: one call leaves \<open>loop_count\<close> at 10.\<close>

theorem Decode_loop_reentry_bounded_witness:
  "rewind_works silent_vtable \<and> (0::int) \<le> 8 \<and>
   always_finished silent_vtable \<and> always_short silent_vtable \<and>
   \<not> paused (SetLooping True example_decoder) \<and> looping (SetLooping True example_decoder) \<and>
   (\<exists>r m' this'. Decode False silent_vtable (SetLooping True example_decoder) Map.empty 0 8 =
        Inr (r, m', this') \<and> loop_count this' = 10 \<and> debug_output this' = [depth_message])"
proof -
  have a: "always_finished silent_vtable" "always_short silent_vtable" "rewind_works silent_vtable"
    by (simp_all add: always_finished_def always_short_def rewind_works_def silent_vtable_def)
  have b: "\<not> paused (SetLooping True example_decoder)" "looping (SetLooping True example_decoder)"
    "loop_count (SetLooping True example_decoder) = 0"
    "debug_output (SetLooping True example_decoder) = []"
    by (simp_all add: SetLooping_def example_decoder_def)
  from Decode_loop_reentry_bounded[OF a(3), of 8 False "SetLooping True example_decoder" Map.empty 0]
  show ?thesis using a b by auto
qed

text \<open>
  Claim C4. While the decoder is paused, for every \<open>N \<ge> 0\<close>, \<^verbatim>\<open>Decode(buf, N)\<close> returns
  \<open>N\<close>, every byte of \<open>buf\<close> is zero and the memory outside \<open>buf\<close> is as before; the
  object, with the state of the backend in it, is unchanged, and the result is the same
  whatever the member functions of the backend are: \<^verbatim>\<open>FillBuffer\<close> is not called.
\<close>

theorem Decode_paused_silence:
  assumes "paused this" and "0 \<le> n"
  shows "(\<exists>m'. Decode NDEBUG vt this m buf n = Inr (n, m', this) \<and> zero_on m' buf n \<and>
            (\<forall>i. i < buf \<or> buf + n \<le> i \<longrightarrow> m' i = m i)) \<and>
         (\<forall>vt' D. Decode D vt' this m buf n = Decode NDEBUG vt this m buf n)"
  using assms
  by (simp add: Decode_def Decode_rec_paused memset_def zero_on_def)

theorem Decode_paused_silence_witness:
  "paused (Pause tone_decoder) \<and> (0::int) \<le> 8 \<and>
   (\<exists>m'. Decode False tone_vtable (Pause tone_decoder) Map.empty 0 8 = Inr (8, m', Pause tone_decoder) \<and>
      zero_on m' 0 8 \<and> derived (Pause tone_decoder) = 3)"
proof -
  have p: "paused (Pause tone_decoder)" by (simp add: Pause_def)
  from Decode_paused_silence[OF p, of 8 False tone_vtable Map.empty 0]
  show ?thesis using p by (auto simp: Pause_def tone_decoder_def)
qed

text \<open>
  Claim C10. \<^verbatim>\<open>DecodeAll\<close> on a decoder that is finished before the first chunk is read
  returns the first chunk as it was allocated, 8192 zero bytes, not an empty buffer: the
  loop body, which trims the buffer, is not entered. The object is unchanged.
\<close>

theorem DecodeAll_finished_first_chunk:
  assumes "IsFinished vt (derived this)"
  shows "DecodeAll NDEBUG vt this = Some (Inr (replicate 8192 0, this))"
  using assms
  by (simp add: DecodeAll_def DecodeAll_loop.simps resize_def buffer_size_def)

theorem DecodeAll_finished_first_chunk_witness:
  "IsFinished WMAUnsupportedFormatDecoder_vtable (derived sentinel) \<and>
   DecodeAll False WMAUnsupportedFormatDecoder_vtable sentinel = Some (Inr (replicate 8192 0, sentinel))"
proof -
  have f: "IsFinished WMAUnsupportedFormatDecoder_vtable (derived sentinel)"
    by (simp add: WMAUnsupportedFormatDecoder_vtable_def)
  from DecodeAll_finished_first_chunk[OF f] show ?thesis using f by simp
qed

section \<open>Lemmas about binary64 arithmetic and fades\<close>

text \<open>
  Rounding leaves every integer below \<open>2 ^ 53\<close> in absolute value as it is; so the
  conversion of a 32-bit \<^verbatim>\<open>int\<close> to \<^verbatim>\<open>double\<close> is exact, as \<open>double_of_int\<close> has it.
\<close>

lemma round_half_even_int: "round_half_even (of_int z) = z"
  by (simp add: round_half_even_def)

lemma ilog2_of_int:
  assumes "0 < k"
  shows "ilog2 (of_int k) = bitlen k - 1"
proof -
  have b: "2 ^ nat (bitlen k - 1) \<le> k" using bitlen_bounds[OF assms] by simp
  have p: "0 \<le> bitlen k - 1"
    using assms bitlen_nonneg[of k] by (smt (verit) bitlen_def bitlen_eq_zero_iff)
  have "(2::rat) powi (bitlen k - 1) = of_int (2 ^ nat (bitlen k - 1))"
    using p by (simp add: power_int_def)
  also have "\<dots> \<le> of_int k" using b by (simp only: of_int_le_iff)
  finally have le: "(2::rat) powi (bitlen k - 1) \<le> of_int k" .
  have one: "bitlen 1 = 1" by code_simp
  show ?thesis using le by (simp add: ilog2_def one Let_def)
qed

lemma binary64_of_int:
  assumes "\<bar>n\<bar> < 2 ^ 53"
  shows "binary64 (of_int n) = of_int n"
proof (cases "n = 0")
  case True
  then show ?thesis by (simp add: binary64_def)
next
  case False
  define k where "k = \<bar>n\<bar>"
  have k: "0 < k" "k < 2 ^ 53" using False assms by (simp_all add: k_def)
  define e where "e = bitlen k - 1"
  have e0: "0 \<le> e"
    using k(1) bitlen_bounds[OF k(1)] unfolding e_def
    by (smt (verit) bitlen_def bitlen_eq_zero_iff bitlen_nonneg)
  have "bitlen k \<le> 53" using k by (simp add: bitlen_le_iff_power)
  then have e52: "e \<le> 52" by (simp add: e_def)
  have il: "ilog2 \<bar>of_int n\<bar> = e"
    using ilog2_of_int[OF k(1)] by (simp add: k_def e_def)
  define j where "j = nat (52 - e)"
  have u: "(2::rat) powi (e - 52) = 1 / 2 ^ j"
    using e52 by (simp add: power_int_def j_def inverse_eq_divide power_one_over)
  have "of_int n / ((2::rat) powi (e - 52)) = of_int (n * 2 ^ j)"
    by (simp add: u)
  then have "round_half_even (of_int n / ((2::rat) powi (e - 52))) = n * 2 ^ j"
    by (simp only: round_half_even_int)
  then show ?thesis
    using False e0 by (simp add: binary64_def il Let_def u max_def)
qed

text \<open>The rounding on known values: one third, and ties at the 53rd bit.\<close>

lemma binary64_examples:
  "binary64 (1 / 3) = 6004799503160661 / 2 ^ 54"
  "binary64 (2 ^ 53 + 1) = 2 ^ 53"
  "binary64 (2 ^ 53 + 3) = 2 ^ 53 + 4"
  "binary64 (- (2 ^ 53) - 1) = - (2 ^ 53)"
  by code_simp+

text \<open>The roundings of the fade from 0 to 100 in 1000 units, stepped by 500.\<close>

lemma binary64_zero: "binary64 0 = 0"
  by (simp add: binary64_def)

lemma binary64_tenth: "binary64 (1 / 10) = 3602879701896397 / 36028797018963968"
  by code_simp

lemma binary64_half_way: "binary64 (450359962737049625 / 9007199254740992) = 50"
  by code_simp

text \<open>A fused multiply-add (one rounding for \<open>volume + delta * delta_step\<close>) gives the same.\<close>

lemma binary64_fused:
  "binary64 (0 + 500 * binary64 (1 / 10)) = 50" "binary64 (50 + 500 * binary64 (1 / 10)) = 100"
  by code_simp+

lemma binary64_numerals:
  "binary64 50 = 50" "binary64 100 = 100" "binary64 500 = 500" "binary64 1000 = 1000"
  by code_simp+

lemma Update_volume_ok: "volume_ok this \<Longrightarrow> volume_ok (Update delta this)"
  by (simp add: volume_ok_def Update_def Let_def)

lemma Update_active_volume_ok: "0 < fade_time this \<Longrightarrow> volume_ok (Update delta this)"
  by (simp add: volume_ok_def Update_def Let_def)

lemma SetVolume_volume_ok: "volume_ok (SetVolume v this) \<longleftrightarrow> 0 \<le> v \<and> v \<le> 100"
  by (simp add: volume_ok_def SetVolume_def double_of_int_def)

lemma SetFade_volume:
  "volume (SetFade b e d this) = (if d \<le> 0 \<or> b = e then of_int e else of_int b)"
  by (simp add: SetFade_def double_of_int_def Let_def)

lemma SetFade_volume_ok:
  "0 \<le> b \<Longrightarrow> b \<le> 100 \<Longrightarrow> 0 \<le> e \<Longrightarrow> e \<le> 100 \<Longrightarrow> volume_ok (SetFade b e d this)"
  by (simp add: volume_ok_def SetFade_volume)

lemma apply_op_ok: "op_in_range x \<Longrightarrow> volume_ok this \<Longrightarrow> volume_ok (apply_op x this)"
  by (cases x) (simp_all add: SetVolume_volume_ok Update_volume_ok SetFade_volume_ok)

lemma run_ops_ok: "list_all op_in_range xs \<Longrightarrow> volume_ok this \<Longrightarrow> volume_ok (run_ops xs this)"
  by (induction xs arbitrary: this) (auto simp: apply_op_ok)

lemma list_all_take: "list_all P xs \<Longrightarrow> list_all P (take n xs)"
  by (induction xs arbitrary: n) (auto simp: take_Cons split: nat.splits)

lemma Update_inactive: "fade_time this \<le> 0 \<Longrightarrow> Update delta this = this"
  by (simp add: Update_def)

lemma Updates_inactive: "fade_time this \<le> 0 \<Longrightarrow> fold Update deltas this = this"
  by (induction deltas) (auto simp: Update_inactive)

lemma SetFade_immediate:
  "duration \<le> 0 \<or> begin = end \<Longrightarrow>
   SetFade begin end duration this = this\<lparr>fade_time := 0, volume := double_of_int end\<rparr>"
  by (auto simp: SetFade_def double_of_int_def Let_def)

lemma SetFade_started:
  "\<not> (duration \<le> 0 \<or> begin = end) \<Longrightarrow>
   SetFade begin end duration this =
     this\<lparr>fade_time := double_of_int duration, volume := double_of_int begin,
          fade_end := double_of_int end,
          delta_step := fdiv (fsub (double_of_int end) (double_of_int begin))
                          (double_of_int duration)\<rparr>"
  by (auto simp: SetFade_def double_of_int_def Let_def)

lemma fade_example:
  "volume (Update 500 (SetFade 0 100 1000 this)) = 50"
  "fade_time (Update 500 (SetFade 0 100 1000 this)) = 500"
  "volume (Update 500 (Update 500 (SetFade 0 100 1000 this))) = 100"
  "fade_time (Update 500 (Update 500 (SetFade 0 100 1000 this))) = 0"
  by (simp_all add: SetFade_def Update_def Let_def double_of_int_def fdiv_def fsub_def fadd_def
      fmul_def binary64_zero binary64_tenth binary64_half_way binary64_numerals)

section \<open>Claims about the volume and fades\<close>

text \<open>
  Claim C5, as amended. The claim says that \<open>0 \<le> volume \<le> 100\<close> holds after every
  sequence of \<^verbatim>\<open>SetVolume\<close>, \<^verbatim>\<open>SetFade\<close> and \<^verbatim>\<open>Update\<close> with any integer arguments.
  \<^verbatim>\<open>SetVolume\<close> and \<^verbatim>\<open>SetFade\<close> store their arguments as they are; only \<^verbatim>\<open>Update\<close>
  clamps.

  For every sequence of these operations in which the argument of each \<^verbatim>\<open>SetVolume\<close>
  and the begin and end of each \<^verbatim>\<open>SetFade\<close> lie in \<open>[0, 100]\<close> (any duration, any
  \<^verbatim>\<open>Update\<close>), from an object whose volume is in \<open>[0, 100]\<close>, the volume is in
  \<open>[0, 100]\<close> after each operation. \<^verbatim>\<open>SetVolume(v)\<close> leaves the volume in \<open>[0, 100]\<close>
  exactly when \<open>v\<close> is; an \<^verbatim>\<open>Update\<close> during a fade brings it into \<open>[0, 100]\<close>.
\<close>

theorem volume_in_range_preserved:
  assumes "volume_ok this" and "list_all op_in_range ops"
  shows "(\<forall>n. volume_ok (run_ops (take n ops) this)) \<and>
         volume_ok (run_ops ops this) \<and>
         (\<forall>v. volume_ok (SetVolume v this) \<longleftrightarrow> 0 \<le> v \<and> v \<le> 100) \<and>
         (\<forall>that delta. 0 < fade_time that \<longrightarrow> volume_ok (Update delta (that :: 'a AudioDecoder)))"
  using assms
  by (simp add: run_ops_ok list_all_take SetVolume_volume_ok Update_active_volume_ok)

theorem volume_in_range_preserved_witness:
  "volume_ok example_decoder \<and>
   list_all op_in_range [OpSetVolume 80, OpSetFade 0 100 1000, OpUpdate 500, OpUpdate 700] \<and>
   volume_ok (run_ops [OpSetVolume 80, OpSetFade 0 100 1000, OpUpdate 500, OpUpdate 700]
                example_decoder)"
proof -
  have a: "volume_ok example_decoder"
    by (simp add: volume_ok_def example_decoder_def)
  have b: "list_all op_in_range [OpSetVolume 80, OpSetFade 0 100 1000, OpUpdate 500, OpUpdate 700]"
    by simp
  from volume_in_range_preserved[OF a b] show ?thesis using a b by blast
qed

text \<open>
  The counterexample to C5 as stated: \<^verbatim>\<open>SetVolume(200)\<close> on an object whose volume is
  0 leaves the volume at 200.
\<close>

theorem volume_invariant_counterexample:
  "volume_ok example_decoder \<and>
   volume (run_ops [OpSetVolume 200] example_decoder) = 200 \<and>
   \<not> volume_ok (run_ops [OpSetVolume 200] example_decoder)"
  by (simp add: volume_ok_def example_decoder_def SetVolume_def double_of_int_def)

text \<open>
  Claim C6. While a fade is active (\<open>fade_time > 0\<close>), \<^verbatim>\<open>Update(delta)\<close> takes \<open>delta\<close>
  off the remaining fade time and adds \<open>delta * delta_step\<close> to the volume, in binary64
  arithmetic, and clamps the volume into \<open>[0, 100]\<close>; nothing else changes. When no fade
  is active (\<open>fade_time \<le> 0\<close>), \<^verbatim>\<open>Update\<close> changes nothing. After
  \<^verbatim>\<open>SetFade(0, 100, 1000)\<close>, \<^verbatim>\<open>Update(500)\<close> gives volume 50 (exactly: the rounding
  error of the step \<open>0.1\<close> disappears when the product is rounded), a further
  \<^verbatim>\<open>Update(500)\<close> gives volume 100 with the fade time at 0, and every \<^verbatim>\<open>Update\<close>
  after that changes nothing.
\<close>

theorem Update_fade_step:
  "(0 < fade_time this \<longrightarrow>
      Update delta this =
        this\<lparr>fade_time := fsub (fade_time this) (double_of_int delta),
             volume := max 0 (min 100
               (fadd (volume this) (fmul (double_of_int delta) (delta_step this))))\<rparr> \<and>
      volume_ok (Update delta this)) \<and>
   (fade_time this \<le> 0 \<longrightarrow> Update delta this = this) \<and>
   volume (Update 500 (SetFade 0 100 1000 this)) = 50 \<and>
   GetVolume (Update 500 (SetFade 0 100 1000 this)) = 50 \<and>
   volume (Update 500 (Update 500 (SetFade 0 100 1000 this))) = 100 \<and>
   (\<forall>deltas. fold Update deltas (Update 500 (Update 500 (SetFade 0 100 1000 this))) =
      Update 500 (Update 500 (SetFade 0 100 1000 this)))"
proof -
  have active: "0 < fade_time this \<longrightarrow>
      Update delta this =
        this\<lparr>fade_time := fsub (fade_time this) (double_of_int delta),
             volume := max 0 (min 100
               (fadd (volume this) (fmul (double_of_int delta) (delta_step this))))\<rparr>"
    by (simp add: Update_def Let_def max_def min_def)
  have finished: "\<forall>deltas. fold Update deltas (Update 500 (Update 500 (SetFade 0 100 1000 this))) =
      Update 500 (Update 500 (SetFade 0 100 1000 this))"
    by (simp add: Updates_inactive fade_example)
  have ok: "0 < fade_time this \<longrightarrow> volume_ok (Update delta this)"
    by (simp add: Update_active_volume_ok)
  have idle: "fade_time this \<le> 0 \<longrightarrow> Update delta this = this"
    by (simp add: Update_inactive)
  have half: "volume (Update 500 (SetFade 0 100 1000 this)) = 50"
    "GetVolume (Update 500 (SetFade 0 100 1000 this)) = 50"
    "volume (Update 500 (Update 500 (SetFade 0 100 1000 this))) = 100"
    by (simp_all add: fade_example GetVolume_def)
  show ?thesis
    using active ok idle half finished by blast
qed

theorem Update_fade_step_witness:
  "0 < fade_time (SetFade 0 100 1000 example_decoder) \<and>
   fade_time (Update 500 (SetFade 0 100 1000 example_decoder)) = 500 \<and>
   volume (Update 500 (SetFade 0 100 1000 example_decoder)) = 50 \<and>
   fade_time (Update 500 (Update 500 (SetFade 0 100 1000 example_decoder))) \<le> 0 \<and>
   Update 7 (Update 500 (Update 500 (SetFade 0 100 1000 example_decoder))) =
     Update 500 (Update 500 (SetFade 0 100 1000 example_decoder))"
proof -
  have a: "0 < fade_time (SetFade 0 100 1000 example_decoder)"
    by (simp add: SetFade_def double_of_int_def Let_def)
  have b: "fade_time (Update 500 (Update 500 (SetFade 0 100 1000 example_decoder))) \<le> 0"
    by (simp add: fade_example)
  have c: "fade_time (Update 500 (SetFade 0 100 1000 example_decoder)) = 500"
    by (simp add: fade_example)
  from Update_fade_step[of example_decoder 0]
  have d: "volume (Update 500 (SetFade 0 100 1000 example_decoder)) = 50"
    by blast
  from Update_fade_step[of "Update 500 (Update 500 (SetFade 0 100 1000 example_decoder))" 7] b
  have e: "Update 7 (Update 500 (Update 500 (SetFade 0 100 1000 example_decoder))) =
     Update 500 (Update 500 (SetFade 0 100 1000 example_decoder))"
    by blast
  show ?thesis using a b c d e by blast
qed

text \<open>
  Claim C7. For every begin, end and duration: if \<open>duration \<le> 0\<close> or \<open>begin = end\<close>,
  \<^verbatim>\<open>SetFade\<close> sets the volume to \<open>end\<close> at once and leaves no fade active (the fade
  time is 0), so that every sequence of \<^verbatim>\<open>Update\<close> calls that follows changes nothing;
  otherwise it sets the volume to \<open>begin\<close>, remembers \<open>end\<close> and \<open>duration\<close>, and sets
  the step to \<open>(end - begin) / duration\<close> in binary64 arithmetic, which for 32-bit
  arguments is the double nearest to the quotient (the subtraction is exact).
\<close>

theorem SetFade_sets_fade:
  "(duration \<le> 0 \<or> begin = end \<longrightarrow>
      SetFade begin end duration this = this\<lparr>fade_time := 0, volume := double_of_int end\<rparr> \<and>
      volume (SetFade begin end duration this) = of_int end \<and>
      fade_time (SetFade begin end duration this) = 0 \<and>
      (\<forall>deltas. fold Update deltas (SetFade begin end duration this) =
         SetFade begin end duration this)) \<and>
   (\<not> (duration \<le> 0 \<or> begin = end) \<longrightarrow>
      SetFade begin end duration this =
        this\<lparr>fade_time := double_of_int duration, volume := double_of_int begin,
             fade_end := double_of_int end,
             delta_step := fdiv (fsub (double_of_int end) (double_of_int begin))
                             (double_of_int duration)\<rparr> \<and>
      volume (SetFade begin end duration this) = of_int begin \<and>
      fade_end (SetFade begin end duration this) = of_int end \<and>
      fade_time (SetFade begin end duration this) = of_int duration \<and>
      (\<bar>end - begin\<bar> < 2 ^ 53 \<longrightarrow>
         delta_step (SetFade begin end duration this) =
           binary64 (of_int (end - begin) / of_int duration)))"
proof -
  have imm: "duration \<le> 0 \<or> begin = end \<longrightarrow>
      (\<forall>deltas. fold Update deltas (SetFade begin end duration this) =
         SetFade begin end duration this)"
    by (auto simp: SetFade_immediate Updates_inactive)
  have step: "\<bar>end - begin\<bar> < 2 ^ 53 \<longrightarrow>
      fdiv (fsub (double_of_int end) (double_of_int begin)) (double_of_int duration) =
        binary64 (of_int (end - begin) / of_int duration)"
    using binary64_of_int[of "end - begin"]
    by (simp add: fdiv_def fsub_def double_of_int_def)
  show ?thesis
    using imm step
    by (auto simp: SetFade_immediate SetFade_started double_of_int_def)
qed

theorem SetFade_sets_fade_witness:
  "((0::int) \<le> 0 \<or> (30::int) = 70) \<and>
   volume (SetFade 30 70 0 example_decoder) = 70 \<and>
   fold Update [10, 20] (SetFade 30 70 0 example_decoder) = SetFade 30 70 0 example_decoder \<and>
   \<not> ((1000::int) \<le> 0 \<or> (0::int) = 100) \<and>
   volume (SetFade 0 100 1000 example_decoder) = 0 \<and>
   fade_time (SetFade 0 100 1000 example_decoder) = 1000 \<and>
   delta_step (SetFade 0 100 1000 example_decoder) = 3602879701896397 / 36028797018963968"
proof -
  have c1: "(0::int) \<le> 0 \<or> (30::int) = 70" by simp
  have c2: "\<not> ((1000::int) \<le> 0 \<or> (0::int) = 100)" by simp
  have c3: "\<bar>(100::int) - 0\<bar> < 2 ^ 53" by simp
  from SetFade_sets_fade[of 0 30 70 example_decoder] c1
  have v1: "volume (SetFade 30 70 0 example_decoder) = of_int 70"
    and u1: "fold Update [10, 20] (SetFade 30 70 0 example_decoder) = SetFade 30 70 0 example_decoder"
    by blast+
  from SetFade_sets_fade[of 1000 0 100 example_decoder] c2 c3
  have v2: "volume (SetFade 0 100 1000 example_decoder) = of_int 0"
    and t2: "fade_time (SetFade 0 100 1000 example_decoder) = of_int 1000"
    and s2: "delta_step (SetFade 0 100 1000 example_decoder) =
               binary64 (of_int (100 - 0) / of_int 1000)"
    by blast+
  have s3: "binary64 (of_int (100 - 0) / of_int 1000) = 3602879701896397 / 36028797018963968"
    by (simp add: binary64_tenth)
  show ?thesis
    unfolding s2 s3 using c1 c2 v1 u1 v2 t2 by simp
qed

section \<open>Claims about the sample formats and Create\<close>

lemma formats_with_width:
  "{f. \<exists>w. 0 < w \<and> GetSamplesizeForFormat NDEBUG f = Inr w} = {S8, U8, S16, U16, S32, U32, F32}"
proof (intro equalityI subsetI)
  fix f assume "f \<in> {f. \<exists>w. 0 < w \<and> GetSamplesizeForFormat NDEBUG f = Inr w}"
  then show "f \<in> {S8, U8, S16, U16, S32, U32, F32}" by (cases f) (auto split: if_splits)
next
  fix f assume "f \<in> {S8, U8, S16, U16, S32, U32, F32}"
  then show "f \<in> {f. \<exists>w. 0 < w \<and> GetSamplesizeForFormat NDEBUG f = Inr w}" by auto
qed

lemma widths_of_formats:
  "{w. \<exists>f. 0 < w \<and> GetSamplesizeForFormat NDEBUG f = Inr w} = {1, 2, 4}"
proof (intro equalityI subsetI)
  fix w assume "w \<in> {w. \<exists>f. 0 < w \<and> GetSamplesizeForFormat NDEBUG f = Inr w}"
  then obtain f where "0 < w" "GetSamplesizeForFormat NDEBUG f = Inr w" by blast
  then show "w \<in> {1, 2, 4}" by (cases f) (auto split: if_splits)
next
  fix w :: int assume "w \<in> {1, 2, 4}"
  then consider "w = 1" | "w = 2" | "w = 4" by blast
  then show "w \<in> {w. \<exists>f. 0 < w \<and> GetSamplesizeForFormat NDEBUG f = Inr w}"
  proof cases
    case 1
    then have "0 < w \<and> GetSamplesizeForFormat NDEBUG S8 = Inr w" by simp
    then show ?thesis by blast
  next
    case 2
    then have "0 < w \<and> GetSamplesizeForFormat NDEBUG S16 = Inr w" by simp
    then show ?thesis by blast
  next
    case 3
    then have "0 < w \<and> GetSamplesizeForFormat NDEBUG S32 = Inr w" by simp
    then show ?thesis by blast
  qed
qed

text \<open>
  Claim C8, as amended. The claim counts eight enumerated formats, with widths
  \<open>{1,1,2,2,4,4,4,4}\<close>, and calls every other value a fatal assertion.
  \<^verbatim>\<open>GetSamplesizeForFormat\<close> names seven formats: the lookup is a total function that
  gives exactly the seven formats S8, U8, S16, U16, S32, U32 and F32 a width, namely 1,
  1, 2, 2, 4, 4 and 4; the widths that occur are 1, 2 and 4. For every other value of
  the enumeration type the assertion fails where assertions are compiled in; where they
  are compiled out (\<^verbatim>\<open>NDEBUG\<close>) the function returns \<open>- 1\<close>, which is no width.
\<close>

theorem samplesize_seven_formats:
  "map (GetSamplesizeForFormat NDEBUG) enumerated_formats =
     [Inr 1, Inr 1, Inr 2, Inr 2, Inr 4, Inr 4, Inr 4] \<and>
   distinct enumerated_formats \<and> length enumerated_formats = 7 \<and>
   {f. \<exists>w. 0 < w \<and> GetSamplesizeForFormat NDEBUG f = Inr w} = set enumerated_formats \<and>
   {w. \<exists>f. 0 < w \<and> GetSamplesizeForFormat NDEBUG f = Inr w} = {1, 2, 4} \<and>
   (\<forall>f. f \<in> set enumerated_formats \<or>
        GetSamplesizeForFormat False f = Inl (AssertionFailed ''Bad format'') \<and>
        GetSamplesizeForFormat True f = Inr (- 1))"
proof -
  have other: "\<forall>f. f \<in> set enumerated_formats \<or>
        GetSamplesizeForFormat False f = Inl (AssertionFailed ''Bad format'') \<and>
        GetSamplesizeForFormat True f = Inr (- 1)"
  proof
    fix f show "f \<in> set enumerated_formats \<or>
        GetSamplesizeForFormat False f = Inl (AssertionFailed ''Bad format'') \<and>
        GetSamplesizeForFormat True f = Inr (- 1)"
      by (cases f) (simp_all add: enumerated_formats_def)
  qed
  have set: "{f. \<exists>w. 0 < w \<and> GetSamplesizeForFormat NDEBUG f = Inr w} = set enumerated_formats"
    by (simp add: formats_with_width enumerated_formats_def)
  show ?thesis
    using other set widths_of_formats[of NDEBUG] by (simp add: enumerated_formats_def)
qed

text \<open>
  The counterexample to C8 as stated: in no build are there eight different formats
  that the lookup gives a width; and with \<^verbatim>\<open>NDEBUG\<close> a value outside the enumerated
  set makes the function return \<open>- 1\<close>.
\<close>

theorem samplesize_eight_formats_counterexample:
  "\<not> (\<exists>NDEBUG fs. distinct fs \<and> length fs = 8 \<and>
        (\<forall>f \<in> set fs. \<exists>w. 0 < w \<and> GetSamplesizeForFormat NDEBUG f = Inr w)) \<and>
   GetSamplesizeForFormat True (Unenumerated 7) = Inr (- 1)"
proof
  show "\<not> (\<exists>NDEBUG fs. distinct fs \<and> length fs = 8 \<and>
        (\<forall>f \<in> set fs. \<exists>w. 0 < w \<and> GetSamplesizeForFormat NDEBUG f = Inr w))"
  proof
    assume "\<exists>NDEBUG fs. distinct fs \<and> length fs = 8 \<and>
        (\<forall>f \<in> set fs. \<exists>w. 0 < w \<and> GetSamplesizeForFormat NDEBUG f = Inr w)"
    then obtain NDEBUG fs where d: "distinct fs" and l: "length fs = 8"
      and a: "\<forall>f \<in> set fs. \<exists>w. 0 < w \<and> GetSamplesizeForFormat NDEBUG f = Inr w" by blast
    from a have "set fs \<subseteq> {S8, U8, S16, U16, S32, U32, F32}"
      using formats_with_width[of NDEBUG] by blast
    then have "card (set fs) \<le> card {S8, U8, S16, U16, S32, U32, F32}"
      by (intro card_mono) auto
    also have "\<dots> = 7" by simp
    finally show False using d l by (simp add: distinct_card)
  qed
  show "GetSamplesizeForFormat True (Unenumerated 7) = Inr (- 1)" by simp
qed

lemma strncmp_wma:
  "\<not> strncmp_eq wma_magic ''MThd'' 4" "\<not> strncmp_eq wma_magic ''OggS'' 4"
  "\<not> strncmp_eq wma_magic ''RIFF'' 4" "\<not> strncmp_eq wma_magic ''FORM'' 4"
  "\<not> strncmp_eq wma_magic ''fLaC'' 4"
  by (simp_all add: wma_magic_def eval_nat_numeral)

lemma ReadIntoObj_wma:
  assumes "good s" and "take 4 (drop (gpos s) (bytes s)) = wma_magic"
  shows "ReadIntoObj s [CHR 0x00, CHR 0x00, CHR 0x00, CHR 0x00] =
      (True, wma_magic, s\<lparr>gpos := gpos s + 4, eofbit := False, failbit := False, gcount := 4\<rparr>)"
proof -
  have four: "length [CHR 0x00, CHR 0x00, CHR 0x00, CHR 0x00] = 4" by simp
  have rd: "read s 4 = (wma_magic, s\<lparr>gpos := gpos s + length wma_magic,
       eofbit := length wma_magic < 4, failbit := length wma_magic < 4,
       gcount := length wma_magic\<rparr>)"
    unfolding read_def Let_def assms(2) using assms(1) by simp
  have nb: "\<not> badbit s" using assms(1) by (simp add: good_def)
  show ?thesis
    unfolding ReadIntoObj_def four rd
    using nb by (simp add: fail_def overwrite_def wma_magic_def)
qed

text \<open>
  Claim C9, as amended. The claim is about every stream whose four leading bytes are
  the WMA signature \<open>0x30 0x26 0xB2 0x75\<close>. \<^verbatim>\<open>Create\<close> does not look at the leading
  bytes of the stream: it reads four bytes at the current read position, and only if
  the stream is in good state. A stream that begins with the signature but is handed
  over with \<^verbatim>\<open>eofbit\<close> set, or positioned past the signature, gets \<^verbatim>\<open>nullptr\<close>.

  The amended claim: for every stream in good state whose four bytes at the current
  read position are the WMA signature (for a stream at offset 0: whose four leading
  bytes are), whatever the build configuration, the external decoders, the state of
  \<^verbatim>\<open>mpg123_works\<close> and the resample flag, \<^verbatim>\<open>Create\<close> returns the sentinel decoder,
  not \<^verbatim>\<open>nullptr\<close> (no earlier step of the classifier matches these bytes); the
  sentinel's \<^verbatim>\<open>IsFinished()\<close> is true as constructed and its error string is not empty.
\<close>

theorem Create_wma_sentinel:
  assumes "good s" and "take 4 (drop (gpos s) (bytes s)) = wma_magic"
  shows "fst (Create cfg ext w s resample) = Some WMAUnsupportedFormatDecoder \<and>
         IsFinished WMAUnsupportedFormatDecoder_vtable
           (derived (WMAUnsupportedFormatDecoder_ctor base)) \<and>
         GetError (WMAUnsupportedFormatDecoder_ctor base) \<noteq> []"
proof -
  have "fst (Create cfg ext w s resample) = Some WMAUnsupportedFormatDecoder"
    by (simp add: Create_def ReadIntoObj_wma[OF assms] Create_midi_def Create_ogg_def
        Create_fastwav_def memcmp_eq_def strncmp_wma)
  then show ?thesis
    by (simp add: WMAUnsupportedFormatDecoder_vtable_def GetError_def
        WMAUnsupportedFormatDecoder_ctor_def)
qed

theorem Create_wma_sentinel_witness:
  "good wma_stream \<and> take 4 (drop (gpos wma_stream) (bytes wma_stream)) = wma_magic \<and>
   (\<forall>cfg ext w resample.
      fst (Create cfg ext w wma_stream resample) = Some WMAUnsupportedFormatDecoder) \<and>
   IsFinished WMAUnsupportedFormatDecoder_vtable (derived sentinel) \<and>
   GetError sentinel \<noteq> []"
proof -
  have g: "good wma_stream" by (simp add: good_def wma_stream_def)
  have m: "take 4 (drop (gpos wma_stream) (bytes wma_stream)) = wma_magic"
    by (simp add: wma_stream_def wma_magic_def)
  from Create_wma_sentinel[OF g m, of _ _ _ _ example_decoder]
  show ?thesis using g m by (simp add: sentinel_def)
qed

text \<open>
  The counterexample to C9 as stated: a stream whose four leading bytes are the WMA
  signature. With \<^verbatim>\<open>eofbit\<close> set the first read fails and \<^verbatim>\<open>Create\<close> returns
  \<^verbatim>\<open>nullptr\<close> at line 118, in every build. Positioned at offset 4, the bytes read
  are the next four of the stream, no classifier step matches them, and in a build
  without the tracker and MP3 decoders \<^verbatim>\<open>Create\<close> returns \<^verbatim>\<open>nullptr\<close> at line 228.
\<close>

theorem Create_wma_leading_bytes_counterexample:
  "take 4 (bytes wma_stream) = wma_magic \<and>
   (\<forall>cfg ext w resample.
      fst (Create cfg ext w (wma_stream\<lparr>eofbit := True\<rparr>) resample) = None) \<and>
   (\<forall>cfg ext w resample.
      fst (Create (cfg\<lparr>HAVE_XMP := False, HAVE_MPG123 := False\<rparr>) ext w
             (wma_stream\<lparr>gpos := 4\<rparr>) resample) = None)"
proof -
  have lead: "take 4 (bytes wma_stream) = wma_magic"
    by (simp add: wma_stream_def wma_magic_def)
  have four: "length [CHR 0x00, CHR 0x00, CHR 0x00, CHR 0x00] = 4"
    by simp
  have eof: "ReadIntoObj (wma_stream\<lparr>eofbit := True\<rparr>) [CHR 0x00, CHR 0x00, CHR 0x00, CHR 0x00] =
      (False, [CHR 0x00, CHR 0x00, CHR 0x00, CHR 0x00],
       wma_stream\<lparr>eofbit := True, failbit := True, gcount := 0\<rparr>)"
    unfolding ReadIntoObj_def four
    by (simp add: read_def good_def fail_def overwrite_def wma_stream_def)
  have rd: "read (wma_stream\<lparr>gpos := 4\<rparr>) 4 =
      ([CHR 0x8E, CHR 0x66, CHR 0xCF, CHR 0x11],
       wma_stream\<lparr>gpos := 8, eofbit := False, failbit := False, gcount := 4\<rparr>)"
    by (simp add: read_def good_def wma_stream_def wma_magic_def Let_def)
  have later: "ReadIntoObj (wma_stream\<lparr>gpos := 4\<rparr>) [CHR 0x00, CHR 0x00, CHR 0x00, CHR 0x00] =
      (True, [CHR 0x8E, CHR 0x66, CHR 0xCF, CHR 0x11],
       wma_stream\<lparr>gpos := 8, eofbit := False, failbit := False, gcount := 4\<rparr>)"
    unfolding ReadIntoObj_def four rd
    by (simp add: fail_def overwrite_def wma_stream_def)
  have cmp: "\<not> strncmp_eq [CHR 0x8E, CHR 0x66, CHR 0xCF, CHR 0x11] ''MThd'' 4"
    "\<not> strncmp_eq [CHR 0x8E, CHR 0x66, CHR 0xCF, CHR 0x11] ''OggS'' 4"
    "\<not> strncmp_eq [CHR 0x8E, CHR 0x66, CHR 0xCF, CHR 0x11] ''RIFF'' 4"
    "\<not> strncmp_eq [CHR 0x8E, CHR 0x66, CHR 0xCF, CHR 0x11] ''FORM'' 4"
    "\<not> strncmp_eq [CHR 0x8E, CHR 0x66, CHR 0xCF, CHR 0x11] ''fLaC'' 4"
    by (simp_all add: eval_nat_numeral)
  have mem: "\<not> memcmp_eq [CHR 0x8E, CHR 0x66, CHR 0xCF, CHR 0x11] wma_magic 4"
    by (simp add: memcmp_eq_def wma_magic_def)
  have a: "fst (Create cfg ext w (wma_stream\<lparr>eofbit := True\<rparr>) resample) = None"
    for cfg ext w resample
    by (simp add: Create_def eof)
  have b: "fst (Create (cfg\<lparr>HAVE_XMP := False, HAVE_MPG123 := False\<rparr>) ext w
             (wma_stream\<lparr>gpos := 4\<rparr>) resample) = None"
    for cfg ext w resample
    by (simp add: Create_def later Create_midi_def Create_ogg_def Create_fastwav_def cmp mem
        Create_mpg123_def)
  show ?thesis
    using lead a b by blast
qed

text \<open>
  The last part of \<^verbatim>\<open>Create\<close> (lines 204 to 228) does leave the stream at offset 0
  with its flags cleared whenever it returns \<^verbatim>\<open>nullptr\<close>.
\<close>

lemma Create_mpg123_nothing:
  assumes "Create_mpg123 cfg ext w resample magic s = (None, s', w')"
  shows "gpos s' = 0 \<and> good s'"
proof -
  have "\<And>t. gpos (seekg (clear t) 0) = 0 \<and> good (seekg (clear t) 0)"
    by (simp add: seekg_def clear_def good_def fail_def)
  then show ?thesis
    using assms
    by (auto simp: Create_mpg123_def Let_def split: if_splits prod.splits)
qed

text \<open>
  Claim C3 fails on the code. \<^verbatim>\<open>Create\<close> on a stream of fewer than four bytes (here the
  empty stream) returns \<^verbatim>\<open>nullptr\<close> at line 118 with \<^verbatim>\<open>eofbit\<close> and \<^verbatim>\<open>failbit\<close>
  set; and on a stream that holds only the tag \<open>OggS\<close>, in a build with Opus, the probe
  at offset 28 reads nothing and \<^verbatim>\<open>Create\<close> returns \<^verbatim>\<open>nullptr\<close> at line 143 with the
  stream at offset 28 and both flags set. Only the last \<^verbatim>\<open>return nullptr\<close> (lines 226
  to 228) clears the flags and seeks to offset 0.
\<close>

theorem Create_early_return_leaves_stream_failed:
  "fst (Create cfg ext w empty_stream resample) = None \<and>
   failbit (fst (snd (Create cfg ext w empty_stream resample))) \<and>
   eofbit (fst (snd (Create cfg ext w empty_stream resample))) \<and>
   fst (Create (cfg\<lparr>HAVE_OPUS := True\<rparr>) ext w ogg_stub_stream resample) = None \<and>
   gpos (fst (snd (Create (cfg\<lparr>HAVE_OPUS := True\<rparr>) ext w ogg_stub_stream resample))) = 28 \<and>
   failbit (fst (snd (Create (cfg\<lparr>HAVE_OPUS := True\<rparr>) ext w ogg_stub_stream resample))) \<and>
   eofbit (fst (snd (Create (cfg\<lparr>HAVE_OPUS := True\<rparr>) ext w ogg_stub_stream resample)))"
proof -
  have e: "Create cfg ext w empty_stream resample =
      (None, empty_stream\<lparr>eofbit := True, failbit := True\<rparr>, w)"
    by (simp add: Create_def ReadIntoObj_def read_def good_def fail_def overwrite_def
        empty_stream_def)
  have r: "ReadIntoObj ogg_stub_stream [CHR 0x00, CHR 0x00, CHR 0x00, CHR 0x00] =
      (True, ''OggS'', ogg_stub_stream\<lparr>gpos := 4, gcount := 4\<rparr>)"
    by (simp add: ReadIntoObj_def read_def good_def fail_def overwrite_def ogg_stub_stream_def
        Let_def)
  have c: "strncmp_eq ''OggS'' ''OggS'' 4" "\<not> strncmp_eq ''OggS'' ''MThd'' 4"
    by (simp_all add: eval_nat_numeral)
  have o: "Create (cfg\<lparr>HAVE_OPUS := True\<rparr>) ext w ogg_stub_stream resample =
      (None, ogg_stub_stream\<lparr>gpos := 28, eofbit := True, failbit := True, gcount := 0\<rparr>, w)"
    unfolding Create_def r
    by (simp add: c Create_midi_def Create_ogg_def probe_def seekg_def read_def
        good_def fail_def ogg_stub_stream_def Let_def)
  show ?thesis by (simp add: e o)
qed

end
